theory Spec2Isabelle
  imports Main "HOL-Library.Word"
begin

section \<open>JavaScript values\<close>

text \<open>
  A JavaScript string is a sequence of UTF-16 code units. A code unit is modelled as a
  natural number below 65536, a string as the list of its code units. \<open>js\<close> turns an
  ASCII literal of the source into such a string.
\<close>

type_synonym jschar = nat
type_synonym jsstring = "jschar list"

definition js :: "string \<Rightarrow> jsstring" where
  "js s = map of_char s"

text \<open>
  The values \<open>JSON.parse\<close> can return. A number is a double; the program only looks at
  its truthiness and its string form, so the number type is left open (\<open>'n\<close>). An
  object is the list of its own properties, each key once.
\<close>

datatype 'n json =
    JNull
  | JBool bool
  | JNum 'n
  | JStr jsstring
  | JArr "'n json list"
  | JObj "(jsstring \<times> 'n json) list"

text \<open>
  The functions of the JavaScript platform that the program calls and that are not part
  of the repository: \<open>JSON.parse\<close> (\<open>None\<close> when it throws), \<open>JSON.stringify\<close>,
  \<open>String(v)\<close> for a value that is not a string, and the truthiness of a number.
\<close>

record 'n platform =
  JSON_parse :: "jsstring \<Rightarrow> 'n json option"
  JSON_stringify :: "'n json \<Rightarrow> jsstring"
  String_of :: "'n json \<Rightarrow> jsstring"
  num_truthy :: "'n \<Rightarrow> bool"

fun truthy :: "'n platform \<Rightarrow> 'n json \<Rightarrow> bool" where
  "truthy P JNull = False"
| "truthy P (JBool b) = b"
| "truthy P (JNum n) = num_truthy P n"
| "truthy P (JStr s) = (s \<noteq> [])"
| "truthy P (JArr xs) = True"
| "truthy P (JObj kvs) = True"

text \<open>
  Reading a property \<open>v.k\<close> of a parsed value, for the property names the program reads
  (none of them is defined on a prototype): the own property of an object, and
  \<open>undefined\<close> (\<open>None\<close>) for everything else.
\<close>

fun get :: "'n json \<Rightarrow> jsstring \<Rightarrow> 'n json option" where
  "get (JObj kvs) k = map_of kvs k"
| "get v k = None"

text \<open>\<open>String(v)\<close>.\<close>

fun String :: "'n platform \<Rightarrow> 'n json \<Rightarrow> jsstring" where
  "String P (JStr s) = s"
| "String P v = String_of P v"

text \<open>\<open>a || b\<close> on strings: the empty string is the only falsy string.\<close>

definition or_else :: "jsstring \<Rightarrow> jsstring \<Rightarrow> jsstring" where
  "or_else a b = (if a \<noteq> [] then a else b)"

fun starts_with :: "jsstring \<Rightarrow> jsstring \<Rightarrow> bool" where
  "starts_with s [] = True"
| "starts_with [] (b # p) = False"
| "starts_with (a # s) (b # p) = (a = b \<and> starts_with s p)"

fun str_includes :: "jsstring \<Rightarrow> jsstring \<Rightarrow> bool" where
  "str_includes [] p = (p = [])"
| "str_includes (a # s) p = (starts_with (a # s) p \<or> str_includes s p)"

text \<open>
  \<open>toLowerCase\<close> on a header value. A header value is a byte string (code units below
  256), where the upper-case letters are A to Z and the Latin-1 capitals.
\<close>

definition lower_unit :: "jschar \<Rightarrow> jschar" where
  "lower_unit c =
     (if 65 \<le> c \<and> c \<le> 90 then c + 32
      else if 192 \<le> c \<and> c \<le> 222 \<and> c \<noteq> 215 then c + 32
      else c)"

definition toLowerCase :: "jsstring \<Rightarrow> jsstring" where
  "toLowerCase s = map lower_unit s"

text \<open>The decimal form of a status code, as a template literal prints it.\<close>

fun to_dec :: "nat \<Rightarrow> jsstring" where
  "to_dec n = (if n < 10 then [48 + n] else to_dec (n div 10) @ [48 + n mod 10])"

declare to_dec.simps [simp del]

section \<open>The chat proxy: model resolver\<close>

text \<open>The alias table \<open>FAMILY_ALIASES\<close> of the proxy, with its own properties in order.\<close>

definition FAMILY_ALIASES :: "(jsstring \<times> jsstring list) list" where
  "FAMILY_ALIASES =
    [(js ''mistral-small-latest'', [js ''mistral-small-latest'', js ''mistral-small'']),
     (js ''mistral-medium-latest'', [js ''mistral-medium-latest'', js ''mistral-medium'']),
     (js ''mistral-large-latest'', [js ''mistral-large-latest'', js ''mistral-large'']),
     (js ''codestral-latest'', [js ''codestral-latest'', js ''codestral'']),
     (js ''pixtral-large-latest'', [js ''pixtral-large-latest'', js ''pixtral-large'']),
     (js ''magistral-small-latest'', [js ''magistral-small-latest'', js ''magistral-small'']),
     (js ''magistral-medium-latest'', [js ''magistral-medium-latest'', js ''magistral-medium'']),
     (js ''magistral-latest'',
        [js ''magistral-medium-latest'', js ''magistral-small-latest'',
         js ''magistral-medium'', js ''magistral-small'']),
     (js ''devstral-small-latest'', [js ''devstral-small-latest'', js ''devstral-small'']),
     (js ''devstral-medium-latest'', [js ''devstral-medium-latest'', js ''devstral-medium'']),
     (js ''devstral-latest'',
        [js ''devstral-medium-latest'', js ''devstral-small-latest'',
         js ''devstral-medium'', js ''devstral-small''])]"

text \<open>
  \<open>FAMILY_ALIASES\<close> is an object literal, so \<open>FAMILY_ALIASES[model]\<close> also finds the
  properties that every object inherits from \<open>Object.prototype\<close>: functions, and for
  \<open>__proto__\<close> the prototype object itself.
\<close>

definition Object_prototype_props :: "jsstring list" where
  "Object_prototype_props =
    [js ''constructor'', js ''hasOwnProperty'', js ''isPrototypeOf'',
     js ''propertyIsEnumerable'', js ''toLocaleString'', js ''toString'', js ''valueOf'',
     js ''__proto__'', js ''__defineGetter__'', js ''__defineSetter__'',
     js ''__lookupGetter__'', js ''__lookupSetter__'']"

text \<open>
  The value of \<open>families\<close>: \<open>FAMILY_ALIASES[model] || [model]\<close>. An own property is a
  list of names; an inherited one is a truthy value that is not iterable; only a name
  found nowhere gives \<open>undefined\<close> and so the fallback \<open>[model]\<close>.
\<close>

datatype families_value = Names "jsstring list" | NotIterable

definition families :: "jsstring \<Rightarrow> families_value" where
  "families model =
     (case map_of FAMILY_ALIASES model of
        Some names \<Rightarrow> Names names
      | None \<Rightarrow> if model \<in> set Object_prototype_props then NotIterable else Names [model])"

text \<open>The set \<open>PREFER_CHAT\<close>, as the array the set is built from.\<close>

definition PREFER_CHAT :: "jsstring list" where
  "PREFER_CHAT =
    [js ''mistral-small-latest'', js ''mistral-small'',
     js ''mistral-medium-latest'', js ''mistral-medium'',
     js ''mistral-large-latest'', js ''mistral-large'',
     js ''codestral-latest'', js ''codestral'',
     js ''pixtral-large-latest'', js ''pixtral-large'',
     js ''magistral-small-latest'', js ''magistral-small'',
     js ''magistral-medium-latest'', js ''magistral-medium'',
     js ''magistral-latest'',
     js ''devstral-small-latest'', js ''devstral-small'',
     js ''devstral-medium-latest'', js ''devstral-medium'',
     js ''devstral-latest'']"

text \<open>
  The two request shapes, \<open>"chat"\<close> and \<open>"conv"\<close> in the handler: the completions
  shape of \<open>/v1/chat/completions\<close> and the conversation shape of \<open>/v1/conversations\<close>.
\<close>

datatype shape = Chat | Conv

text \<open>\<open>PREFER_CHAT.has(candidate) ? ["chat", "conv"] : ["conv", "chat"]\<close>.\<close>

definition order :: "jsstring \<Rightarrow> shape list" where
  "order candidate = (if candidate \<in> set PREFER_CHAT then [Chat, Conv] else [Conv, Chat])"

section \<open>The chat proxy: request body\<close>

datatype MessageRole = System | User | Assistant

datatype VisionContentItem = TextItem jsstring | ImageUrl jsstring

datatype message_content = Str jsstring | Items "VisionContentItem list"

record ChatMessagePayload =
  role :: MessageRole
  content :: message_content

fun is_string :: "message_content \<Rightarrow> bool" where
  "is_string (Str s) = True"
| "is_string (Items xs) = False"

text \<open>
  The first value of \<open>chatMessages\<close> in the handler, before the attachments are merged
  into it: the system message when \<open>instructions\<close> is truthy, then the messages whose
  content is a string.
\<close>

definition chatMessages :: "jsstring \<Rightarrow> ChatMessagePayload list \<Rightarrow> ChatMessagePayload list" where
  "chatMessages instructions messages =
     (if instructions \<noteq> [] then [\<lparr>role = System, content = Str instructions\<rparr>] else [])
     @ map (\<lambda>m. \<lparr>role = role m, content = content m\<rparr>)
         (filter (\<lambda>m. is_string (content m)) messages)"

section \<open>The chat proxy: upstream dispatcher\<close>

text \<open>
  What \<open>fetch\<close> gives for one upstream request. A response has a status, perhaps a
  \<open>Content-Type\<close> header, the text that \<open>response.text()\<close> resolves to (\<open>None\<close> when
  it rejects) and \<open>response.body\<close>: \<open>null\<close>, or a stream of chunks that ends or fails
  with an error. An error that is thrown is modelled by the text the handler's
  \<open>catch\<close> block takes from it (\<open>error.message\<close>, or \<open>String(error)\<close>).
\<close>

type_synonym chunk = "8 word list"

datatype stream_end = EndOfStream | StreamError jsstring

record response =
  status :: nat
  content_type :: "jsstring option"
  text_result :: "jsstring option"
  body :: "(chunk list \<times> stream_end) option"

datatype fetch_result = Throws jsstring | Responds response

text \<open>\<open>response.ok\<close>.\<close>

definition response_ok :: "response \<Rightarrow> bool" where
  "response_ok r = (200 \<le> status r \<and> status r \<le> 299)"

definition parseUpstreamError :: "'n platform \<Rightarrow> jsstring \<Rightarrow> jsstring" where
  "parseUpstreamError P txt =
     (case JSON_parse P txt of
        None \<Rightarrow> []
      | Some j \<Rightarrow>
          (case get j (js ''error'') of
             None \<Rightarrow> []
           | Some e \<Rightarrow>
               if truthy P e then (case e of JStr s \<Rightarrow> s | _ \<Rightarrow> JSON_stringify P e)
               else []))"

record call_result =
  ok :: bool
  streamable :: bool
  response :: response
  errorText :: jsstring

text \<open>
  The common body of \<open>callChatCompletions\<close> and \<open>callConversations\<close>, which differ in
  the URL and in the two fallback messages. \<open>Inl\<close> is the error that \<open>fetch\<close> threw.
\<close>

definition call_endpoint ::
  "jsstring \<Rightarrow> jsstring \<Rightarrow> 'n platform \<Rightarrow> fetch_result \<Rightarrow> jsstring + call_result" where
  "call_endpoint error_label no_sse_label P fr =
     (case fr of
        Throws msg \<Rightarrow> Inl msg
      | Responds r \<Rightarrow>
          if \<not> response_ok r then
            (let txt = (case text_result r of Some t \<Rightarrow> t | None \<Rightarrow> []);
                 err = or_else (parseUpstreamError P txt)
                         (or_else txt (error_label @ to_dec (status r)))
             in Inr \<lparr>ok = False, streamable = False, response = r, errorText = err\<rparr>)
          else
            (let ct = (case content_type r of Some c \<Rightarrow> c | None \<Rightarrow> []) in
             if \<not> str_includes (toLowerCase ct) (js ''text/event-stream'') then
               (let txt = (case text_result r of Some t \<Rightarrow> t | None \<Rightarrow> []);
                    err = or_else (parseUpstreamError P txt) (or_else txt no_sse_label)
                in Inr \<lparr>ok = False, streamable = False, response = r, errorText = err\<rparr>)
             else Inr \<lparr>ok = True, streamable = True, response = r, errorText = []\<rparr>))"

definition callChatCompletions :: "'n platform \<Rightarrow> fetch_result \<Rightarrow> jsstring + call_result" where
  "callChatCompletions =
     call_endpoint (js ''chat/completions upstream error: '')
       (js ''chat/completions did not return SSE'')"

definition callConversations :: "'n platform \<Rightarrow> fetch_result \<Rightarrow> jsstring + call_result" where
  "callConversations =
     call_endpoint (js ''conversations upstream error: '')
       (js ''conversations did not return SSE'')"

text \<open>
  The state of the handler's loop: \<open>lastErrorText\<close>, the requests sent so far (each one
  a shape and the candidate sent as \<open>model\<close>), and the bytes written to the caller. The
  first \<open>res.write\<close> sends the headers, and no write is empty (see \<open>relay\<close>), so the
  headers are sent iff a byte was written.
\<close>

record loop_state =
  lastErrorText :: jsstring
  requests :: "(shape \<times> jsstring) list"
  written :: "8 word list"

definition headersSent :: "loop_state \<Rightarrow> bool" where
  "headersSent st = (written st \<noteq> [])"

definition ERR_HTTP_HEADERS_SENT :: jsstring where
  "ERR_HTTP_HEADERS_SENT = js ''Cannot set headers after they are sent to the client''"

text \<open>
  What the handler does not decide while it relays. \<open>res_destroyed k\<close> says whether
  \<open>res.destroyed\<close> holds when \<open>k\<close> bytes have been written. \<open>read_sizes n\<close> says how the
  Node stream \<open>Readable.fromWeb(response.body)\<close> of the request sent after \<open>n\<close> earlier
  ones cuts the bytes of the body: the loop does not see the chunks of \<open>response.body\<close>
  but what is buffered at each read, joined, and never an empty chunk. A size \<open>k\<close> in
  the list stands for a chunk of \<open>k + 1\<close> bytes, or of the bytes that are left when
  these are fewer.
\<close>

record relay_env =
  res_destroyed :: "nat \<Rightarrow> bool"
  read_sizes :: "nat \<Rightarrow> nat list"

text \<open>
  The relay loop \<open>for await (const chunk of upstreamStream)\<close> with its test of
  \<open>res.destroyed\<close> before each \<open>res.write\<close>, on the bytes of the body that are still to
  be read. When the sizes are used up, a stream that ends delivers the rest as one
  chunk, and a stream that fails throws its error (the bytes still buffered are lost).
  The result is the bytes written, and the error when the stream failed (\<open>None\<close> when
  the loop ended or broke).
\<close>

fun relay ::
  "relay_env \<Rightarrow> nat list \<Rightarrow> 8 word list \<Rightarrow> stream_end \<Rightarrow> 8 word list
     \<Rightarrow> 8 word list \<times> jsstring option" where
  "relay env sizes [] EndOfStream w = (w, None)"
| "relay env sizes [] (StreamError msg) w = (w, Some msg)"
| "relay env [] (b # bs) EndOfStream w =
     (if res_destroyed env (length w) then (w, None) else (w @ b # bs, None))"
| "relay env [] (b # bs) (StreamError msg) w = (w, Some msg)"
| "relay env (n # ns) (b # bs) e w =
     (if res_destroyed env (length w) then (w, None)
      else relay env ns (drop n bs) e (w @ b # take n bs))"

text \<open>
  One pass through the body of the inner loop: the \<open>try\<close> block with its \<open>catch\<close>.
  \<open>upstream n\<close> is what \<open>fetch\<close> gives for the request sent after \<open>n\<close> earlier ones. The
  flag of the result says that the handler returned. The body is relayed as its
  bytes. \<open>setSseHeaders\<close> throws when the headers were sent already; like every error
  in the \<open>try\<close> block, also one of the stream being relayed, it is caught and the loop
  goes on.
\<close>

definition attempt ::
  "'n platform \<Rightarrow> (nat \<Rightarrow> fetch_result) \<Rightarrow> relay_env \<Rightarrow> jsstring \<Rightarrow> shape \<Rightarrow> loop_state
     \<Rightarrow> loop_state \<times> bool" where
  "attempt P upstream env candidate which st =
     (let fr = upstream (length (requests st));
          st1 = st\<lparr>requests := requests st @ [(which, candidate)]\<rparr>
      in case (case which of Chat \<Rightarrow> callChatCompletions P fr | Conv \<Rightarrow> callConversations P fr) of
           Inl msg \<Rightarrow> (st1\<lparr>lastErrorText := msg\<rparr>, False)
         | Inr c \<Rightarrow>
             (case (if ok c \<and> streamable c then body (response c) else None) of
                Some (chunks, e) \<Rightarrow>
                  if headersSent st1 then (st1\<lparr>lastErrorText := ERR_HTTP_HEADERS_SENT\<rparr>, False)
                  else
                    (case relay env (read_sizes env (length (requests st))) (concat chunks) e
                            (written st1) of
                       (w, None) \<Rightarrow> (st1\<lparr>written := w\<rparr>, True)
                     | (w, Some msg) \<Rightarrow> (st1\<lparr>written := w, lastErrorText := msg\<rparr>, False))
              | None \<Rightarrow> (st1\<lparr>lastErrorText := or_else (errorText c) (lastErrorText st1)\<rparr>, False)))"

text \<open>\<open>for (const which of order)\<close>.\<close>

fun try_order ::
  "'n platform \<Rightarrow> (nat \<Rightarrow> fetch_result) \<Rightarrow> relay_env \<Rightarrow> jsstring \<Rightarrow> shape list \<Rightarrow> loop_state
     \<Rightarrow> loop_state \<times> bool" where
  "try_order P upstream env candidate [] st = (st, False)"
| "try_order P upstream env candidate (which # rest) st =
     (case attempt P upstream env candidate which st of
        (st', True) \<Rightarrow> (st', True)
      | (st', False) \<Rightarrow> try_order P upstream env candidate rest st')"

text \<open>\<open>for (const candidate of families)\<close>.\<close>

fun try_families ::
  "'n platform \<Rightarrow> (nat \<Rightarrow> fetch_result) \<Rightarrow> relay_env \<Rightarrow> jsstring list \<Rightarrow> loop_state
     \<Rightarrow> loop_state \<times> bool" where
  "try_families P upstream env [] st = (st, False)"
| "try_families P upstream env (candidate # rest) st =
     (case try_order P upstream env candidate (order candidate) st of
        (st', True) \<Rightarrow> (st', True)
      | (st', False) \<Rightarrow> try_families P upstream env rest st')"

text \<open>
  How the handler ends: the stream was relayed (the bytes written) and the response
  ended; the JSON error
  of status 502 was sent; or an error left the handler (the loop over a value that is
  not iterable, or \<open>res.status(502).json\<close> after the headers were sent).
\<close>

datatype outcome = Streamed "8 word list" | Json502 jsstring | Rejected jsstring

text \<open>What a run of the handler did: the upstream requests it sent, and how it ended.\<close>

record dispatched =
  sent :: "(shape \<times> jsstring) list"
  outcome :: outcome

text \<open>
  The handler from the line that reads \<open>families\<close> on, for a \<open>POST\<close> request with an
  API key and a body that parses: \<open>model\<close> is the model name after the default.
\<close>

definition dispatch ::
  "'n platform \<Rightarrow> (nat \<Rightarrow> fetch_result) \<Rightarrow> relay_env \<Rightarrow> jsstring \<Rightarrow> dispatched" where
  "dispatch P upstream env model =
     (case families model of
        NotIterable \<Rightarrow> \<lparr>sent = [], outcome = Rejected (js ''families is not iterable'')\<rparr>
      | Names names \<Rightarrow>
          (case try_families P upstream env names
                  \<lparr>lastErrorText = [], requests = [], written = []\<rparr> of
             (st, True) \<Rightarrow> \<lparr>sent = requests st, outcome = Streamed (written st)\<rparr>
           | (st, False) \<Rightarrow>
               if headersSent st
               then \<lparr>sent = requests st, outcome = Rejected ERR_HTTP_HEADERS_SENT\<rparr>
               else \<lparr>sent = requests st,
                     outcome = Json502 (or_else (lastErrorText st)
                                 (js ''Upstream streaming failed for selected model''))\<rparr>))"

section \<open>The client: decoding the byte stream\<close>

text \<open>
  \<open>new TextDecoder("utf-8")\<close> with \<open>decode(value, { stream: true })\<close>: the UTF-8 decoder
  of the Encoding standard, a state machine that reads one byte at a time, keeps its
  state from one call to the next and replaces malformed input by U+FFFD. The first
  code point of the stream is dropped when it is the byte order mark. The stream is
  never flushed, so the bytes of an unfinished character at its end give no output.
\<close>

record utf8_state =
  code_point :: nat
  bytes_seen :: nat
  bytes_needed :: nat
  lower_boundary :: nat
  upper_boundary :: nat
  bom_seen :: bool

definition utf8_init :: utf8_state where
  "utf8_init =
     \<lparr>code_point = 0, bytes_seen = 0, bytes_needed = 0,
      lower_boundary = 0x80, upper_boundary = 0xBF, bom_seen = False\<rparr>"

text \<open>The UTF-16 code units of a code point.\<close>

definition code_units :: "nat \<Rightarrow> jsstring" where
  "code_units cp =
     (if cp < 0x10000 then [cp]
      else [0xD800 + (cp - 0x10000) div 0x400, 0xDC00 + (cp - 0x10000) mod 0x400])"

definition emit :: "utf8_state \<Rightarrow> nat \<Rightarrow> utf8_state \<times> jsstring" where
  "emit st cp =
     (if \<not> bom_seen st \<and> cp = 0xFEFF then (st\<lparr>bom_seen := True\<rparr>, [])
      else (st\<lparr>bom_seen := True\<rparr>, code_units cp))"

definition utf8_reset :: "utf8_state \<Rightarrow> utf8_state" where
  "utf8_reset st =
     st\<lparr>code_point := 0, bytes_seen := 0, bytes_needed := 0,
        lower_boundary := 0x80, upper_boundary := 0xBF\<rparr>"

text \<open>A byte read when no character is under way.\<close>

definition start_byte :: "utf8_state \<Rightarrow> nat \<Rightarrow> utf8_state \<times> jsstring" where
  "start_byte st b =
     (if b \<le> 0x7F then emit st b
      else if 0xC2 \<le> b \<and> b \<le> 0xDF then
        (st\<lparr>bytes_needed := 1, code_point := b mod 0x20\<rparr>, [])
      else if 0xE0 \<le> b \<and> b \<le> 0xEF then
        (st\<lparr>lower_boundary := (if b = 0xE0 then 0xA0 else lower_boundary st),
            upper_boundary := (if b = 0xED then 0x9F else upper_boundary st),
            bytes_needed := 2, code_point := b mod 0x10\<rparr>, [])
      else if 0xF0 \<le> b \<and> b \<le> 0xF4 then
        (st\<lparr>lower_boundary := (if b = 0xF0 then 0x90 else lower_boundary st),
            upper_boundary := (if b = 0xF4 then 0x8F else upper_boundary st),
            bytes_needed := 3, code_point := b mod 0x8\<rparr>, [])
      else emit st 0xFFFD)"

definition utf8_step :: "utf8_state \<Rightarrow> nat \<Rightarrow> utf8_state \<times> jsstring" where
  "utf8_step st b =
     (if bytes_needed st = 0 then start_byte st b
      else if b < lower_boundary st \<or> upper_boundary st < b then
        (let (st1, out1) = emit (utf8_reset st) 0xFFFD;
             (st2, out2) = start_byte st1 b
         in (st2, out1 @ out2))
      else
        (let st1 = st\<lparr>lower_boundary := 0x80, upper_boundary := 0xBF,
                       code_point := code_point st * 0x40 + b mod 0x40,
                       bytes_seen := bytes_seen st + 1\<rparr>
         in if bytes_seen st1 \<noteq> bytes_needed st1 then (st1, [])
            else emit (utf8_reset st1) (code_point st1)))"

text \<open>\<open>decoder.decode(value, { stream: true })\<close> on one chunk.\<close>

fun decode :: "utf8_state \<Rightarrow> chunk \<Rightarrow> utf8_state \<times> jsstring" where
  "decode st [] = (st, [])"
| "decode st (b # bs) =
     (let (st1, out1) = utf8_step st (unat b);
          (st2, out2) = decode st1 bs
      in (st2, out1 @ out2))"

section \<open>The client: frames\<close>

text \<open>\<open>buffer.split("\n\n")\<close>: the pieces between the occurrences of two line feeds.\<close>

fun split_nn :: "jsstring \<Rightarrow> jsstring list" where
  "split_nn [] = [[]]"
| "split_nn [c] = [[c]]"
| "split_nn (c # c' # s) =
     (if c = 10 \<and> c' = 10 then [] # split_nn s
      else (case split_nn (c' # s) of f # fs \<Rightarrow> (c # f) # fs | [] \<Rightarrow> [[c]]))"

text \<open>\<open>frame.split(/\r?\n/)\<close>.\<close>

fun split_lines :: "jsstring \<Rightarrow> jsstring list" where
  "split_lines [] = [[]]"
| "split_lines [c] = (if c = 10 then [[], []] else [[c]])"
| "split_lines (c # c' # s) =
     (if c = 13 \<and> c' = 10 then [] # split_lines s
      else if c = 10 then [] # split_lines (c' # s)
      else (case split_lines (c' # s) of l # ls \<Rightarrow> (c # l) # ls | [] \<Rightarrow> [[c]]))"

text \<open>The white space and line terminators that \<open>trim\<close> removes.\<close>

definition is_space :: "jschar \<Rightarrow> bool" where
  "is_space c =
     (c \<in> {9, 10, 11, 12, 13, 32, 160, 0x1680, 0x2028, 0x2029, 0x202F, 0x205F, 0x3000, 0xFEFF}
      \<or> (0x2000 \<le> c \<and> c \<le> 0x200A))"

definition trim :: "jsstring \<Rightarrow> jsstring" where
  "trim s = rev (dropWhile is_space (rev (dropWhile is_space s)))"

text \<open>\<open>s.indexOf(p)\<close>, which is \<open>-1\<close> when \<open>p\<close> does not occur.\<close>

fun find_from :: "jsstring \<Rightarrow> jsstring \<Rightarrow> nat \<Rightarrow> int" where
  "find_from [] p i = (if p = [] then int i else - 1)"
| "find_from (c # s) p i = (if starts_with (c # s) p then int i else find_from s p (Suc i))"

definition indexOf :: "jsstring \<Rightarrow> jsstring \<Rightarrow> int" where
  "indexOf s p = find_from s p 0"

definition extractDataJsonFromFrame :: "'n platform \<Rightarrow> jsstring \<Rightarrow> 'n json option" where
  "extractDataJsonFromFrame P frame =
     (case find (\<lambda>l. starts_with (trim l) (js ''data:'')) (split_lines frame) of
        None \<Rightarrow> None
      | Some dataLine \<Rightarrow>
          (let jsonStr = trim (drop (nat (indexOf dataLine (js ''data:'') + 5)) dataLine)
           in if jsonStr = [] \<or> jsonStr = js ''[DONE]'' then None
              else JSON_parse P jsonStr))"

definition extractTextFromDeltaContent :: "'n json option \<Rightarrow> jsstring" where
  "extractTextFromDeltaContent delta_content =
     (case delta_content of
        Some (JStr s) \<Rightarrow> s
      | Some (JArr segments) \<Rightarrow>
          concat (map (\<lambda>segment. case get segment (js ''text'') of
                                     Some (JStr t) \<Rightarrow> t | _ \<Rightarrow> []) segments)
      | _ \<Rightarrow> [])"

section \<open>The client: streamMistralReply\<close>

text \<open>
  The calls of the callbacks, in the order in which \<open>streamMistralReply\<close> makes them.
  The last argument is the \<open>assistantId\<close>. The text given to \<open>onError\<close> is a value,
  since for a response that is not ok it can be an \<open>error\<close> property of any type.
  The callbacks themselves are taken to return normally.
\<close>

datatype 'n callback =
    OnStart jsstring
  | OnToken jsstring jsstring
  | OnDone jsstring
  | OnError "'n json" jsstring
  | OnAbort jsstring

text \<open>\<open>choice?.delta || choice?.message || {}\<close>.\<close>

definition choice_delta :: "'n platform \<Rightarrow> 'n json \<Rightarrow> 'n json" where
  "choice_delta P choice =
     (case get choice (js ''delta'') of
        Some d \<Rightarrow> if truthy P d then d else
          (case get choice (js ''message'') of
             Some m \<Rightarrow> if truthy P m then m else JObj []
           | None \<Rightarrow> JObj [])
      | None \<Rightarrow>
          (case get choice (js ''message'') of
             Some m \<Rightarrow> if truthy P m then m else JObj []
           | None \<Rightarrow> JObj []))"

text \<open>
  The body of \<open>for (const frame of frames)\<close> for an event that was extracted. The flag
  says that the function returned (only the \<open>error\<close> branch does; the others go on
  with the next frame).
\<close>

definition handle_event :: "'n platform \<Rightarrow> jsstring \<Rightarrow> 'n json \<Rightarrow> 'n callback list \<times> bool" where
  "handle_event P assistantId evt =
     (if get evt (js ''type'') = Some (JStr (js ''message.output.delta'')) then
        (let chunk = (case get evt (js ''content'') of Some (JStr s) \<Rightarrow> s | _ \<Rightarrow> [])
         in (if chunk \<noteq> [] then [OnToken chunk assistantId] else [], False))
      else if get evt (js ''type'') = Some (JStr (js ''conversation.response.done'')) then
        ([OnDone assistantId], False)
      else
        (case (case get evt (js ''error'') of
                 Some e \<Rightarrow> if truthy P e then Some e else None
               | None \<Rightarrow> None) of
           Some e \<Rightarrow> ([OnError (JStr (String P e)) assistantId], True)
         | None \<Rightarrow>
             (case get evt (js ''choices'') of
                Some (JArr (choice # rest)) \<Rightarrow>
                  (let piece = extractTextFromDeltaContent
                                 (get (choice_delta P choice) (js ''content''))
                   in (if piece \<noteq> [] then [OnToken piece assistantId] else [], False))
              | _ \<Rightarrow> ([], False))))"

definition handle_frame :: "'n platform \<Rightarrow> jsstring \<Rightarrow> jsstring \<Rightarrow> 'n callback list \<times> bool" where
  "handle_frame P assistantId frame =
     (case extractDataJsonFromFrame P frame of
        None \<Rightarrow> ([], False)
      | Some evt \<Rightarrow> if truthy P evt then handle_event P assistantId evt else ([], False))"

fun process_frames :: "'n platform \<Rightarrow> jsstring \<Rightarrow> jsstring list \<Rightarrow> 'n callback list \<times> bool" where
  "process_frames P assistantId [] = ([], False)"
| "process_frames P assistantId (frame # frames) =
     (case handle_frame P assistantId frame of
        (out, True) \<Rightarrow> (out, True)
      | (out, False) \<Rightarrow>
          (case process_frames P assistantId frames of (out', b) \<Rightarrow> (out @ out', b)))"

text \<open>
  What a \<open>catch\<close> block of \<open>streamMistralReply\<close> sees: a \<open>DOMException\<close> named
  \<open>AbortError\<close>, another \<open>Error\<close> with its message, or a value that is not an \<open>Error\<close>.
\<close>

datatype thrown = AbortError | ErrorWith jsstring | NotAnError

definition on_thrown :: "bool \<Rightarrow> jsstring \<Rightarrow> jsstring \<Rightarrow> thrown \<Rightarrow> 'n callback list" where
  "on_thrown has_onAbort fallback assistantId t =
     (case t of
        AbortError \<Rightarrow> if has_onAbort then [OnAbort assistantId] else []
      | ErrorWith message \<Rightarrow> [OnError (JStr message) assistantId]
      | NotAnError \<Rightarrow> [OnError (JStr fallback) assistantId])"

text \<open>How the reads of the body end: \<open>done\<close>, or \<open>reader.read()\<close> rejects.\<close>

datatype read_end = ReadDone | ReadThrows thrown

text \<open>
  The \<open>while (true)\<close> loop with what follows it: one round for each chunk that
  \<open>reader.read()\<close> delivers, with the decoder state and \<open>buffer\<close> carried along.
\<close>

fun read_loop ::
  "'n platform \<Rightarrow> bool \<Rightarrow> jsstring \<Rightarrow> utf8_state \<Rightarrow> jsstring \<Rightarrow> chunk list \<Rightarrow> read_end
     \<Rightarrow> 'n callback list" where
  "read_loop P has_onAbort assistantId decoder buffer [] e =
     (case e of
        ReadDone \<Rightarrow> [OnDone assistantId]
      | ReadThrows t \<Rightarrow> on_thrown has_onAbort (js ''Stream read error'') assistantId t)"
| "read_loop P has_onAbort assistantId decoder buffer (c # cs) e =
     (let (decoder', decoded) = decode decoder c;
          frames = split_nn (buffer @ decoded)
      in case process_frames P assistantId (butlast frames) of
           (out, True) \<Rightarrow> out
         | (out, False) \<Rightarrow>
             out @ read_loop P has_onAbort assistantId decoder' (last frames) cs e)"

record reply =
  reply_status :: nat
  reply_text :: "jsstring option"
  reply_body :: "(chunk list \<times> read_end) option"

datatype reply_result = FetchThrows thrown | FetchResponds reply

text \<open>The error text for a response that is not ok.\<close>

definition not_ok_text :: "'n platform \<Rightarrow> reply \<Rightarrow> 'n json" where
  "not_ok_text P res =
     (let errText = js ''API error '' @ to_dec (reply_status res) in
      case reply_text res of
        None \<Rightarrow> JStr errText
      | Some txt \<Rightarrow>
          (case JSON_parse P txt of
             None \<Rightarrow> JStr (or_else txt errText)
           | Some j \<Rightarrow>
               (case get j (js ''error'') of
                  Some e \<Rightarrow> if truthy P e then e else JStr (or_else txt errText)
                | None \<Rightarrow> JStr (or_else txt errText))))"

text \<open>
  \<open>streamMistralReply\<close>, given whether \<open>callbacks.onAbort\<close> is there, the preset
  \<open>callbacks.assistantId\<close>, the id that \<open>generateId\<close> would return, and what \<open>fetch\<close>
  gives.
\<close>

definition streamMistralReply ::
  "'n platform \<Rightarrow> bool \<Rightarrow> jsstring option \<Rightarrow> jsstring \<Rightarrow> reply_result \<Rightarrow> 'n callback list" where
  "streamMistralReply P has_onAbort presetAssistantId generated fr =
     (let assistantId = (case presetAssistantId of Some p \<Rightarrow> p | None \<Rightarrow> generated) in
      OnStart assistantId #
      (case fr of
         FetchThrows t \<Rightarrow>
           on_thrown has_onAbort (js ''Network error while contacting chat API.'') assistantId t
       | FetchResponds res \<Rightarrow>
           if \<not> (200 \<le> reply_status res \<and> reply_status res \<le> 299) then
             [OnError (not_ok_text P res) assistantId]
           else
             (case reply_body res of
                None \<Rightarrow> [OnError (JStr (js ''No response body from server.'')) assistantId]
              | Some (chunks, e) \<Rightarrow>
                  read_loop P has_onAbort assistantId utf8_init [] chunks e)))"

section \<open>Vocabulary of the properties\<close>

subsection \<open>Dispatcher\<close>

text \<open>The response carries a \<open>Content-Type\<close> with the event-stream marker.\<close>

definition is_event_stream :: "response \<Rightarrow> bool" where
  "is_event_stream r =
     str_includes (toLowerCase (case content_type r of Some c \<Rightarrow> c | None \<Rightarrow> []))
       (js ''text/event-stream'')"

text \<open>
  An attempt the handler relays: a 2xx status, an event-stream content type and a body.
  Every other result of \<open>fetch\<close> makes the handler go on with the next attempt.
\<close>

definition relayable :: "fetch_result \<Rightarrow> bool" where
  "relayable fr =
     (case fr of
        Throws msg \<Rightarrow> False
      | Responds r \<Rightarrow> response_ok r \<and> is_event_stream r \<and> body r \<noteq> None)"

text \<open>
  The three kinds of failed attempt that the specification names: a transport
  exception, a status that is not 2xx, a 2xx status without an event-stream content type.
\<close>

definition attempt_fails :: "fetch_result \<Rightarrow> bool" where
  "attempt_fails fr =
     (case fr of
        Throws msg \<Rightarrow> True
      | Responds r \<Rightarrow> \<not> response_ok r \<or> \<not> is_event_stream r)"

definition call_shape :: "'n platform \<Rightarrow> shape \<Rightarrow> fetch_result \<Rightarrow> jsstring + call_result" where
  "call_shape P which fr =
     (case which of Chat \<Rightarrow> callChatCompletions P fr | Conv \<Rightarrow> callConversations P fr)"

text \<open>
  The error text of one attempt: the message of the error thrown, or the \<open>errorText\<close>
  that the call returns (empty for a 2xx response with an event-stream content type).
\<close>

definition error_text :: "'n platform \<Rightarrow> shape \<Rightarrow> fetch_result \<Rightarrow> jsstring" where
  "error_text P which fr =
     (case call_shape P which fr of Inl msg \<Rightarrow> msg | Inr c \<Rightarrow> errorText c)"

text \<open>
  The attempt sequence in the words of the specification: the candidates in their
  order, each with the completions shape first when it is in the shape-preference set
  and with the conversation shape first otherwise.
\<close>

definition attempt_plan :: "jsstring list \<Rightarrow> (shape \<times> jsstring) list" where
  "attempt_plan names =
     concat (map (\<lambda>c. if c \<in> set PREFER_CHAT then [(Chat, c), (Conv, c)]
                       else [(Conv, c), (Chat, c)]) names)"

text \<open>The two nested loops as one loop over a list of attempts.\<close>

fun try_plan ::
  "'n platform \<Rightarrow> (nat \<Rightarrow> fetch_result) \<Rightarrow> relay_env \<Rightarrow> (shape \<times> jsstring) list \<Rightarrow> loop_state
     \<Rightarrow> loop_state \<times> bool" where
  "try_plan P upstream env [] st = (st, False)"
| "try_plan P upstream env ((which, candidate) # rest) st =
     (case attempt P upstream env candidate which st of
        (st', True) \<Rightarrow> (st', True)
      | (st', False) \<Rightarrow> try_plan P upstream env rest st')"

text \<open>\<open>lastErrorText\<close> after an attempt that is not relayed.\<close>

definition next_text :: "'n platform \<Rightarrow> shape \<Rightarrow> fetch_result \<Rightarrow> jsstring \<Rightarrow> jsstring" where
  "next_text P which fr prev =
     (case fr of
        Throws msg \<Rightarrow> msg
      | Responds r \<Rightarrow> or_else (error_text P which fr) prev)"

text \<open>The state after a list of attempts none of which is relayed.\<close>

fun run_failed ::
  "'n platform \<Rightarrow> (nat \<Rightarrow> fetch_result) \<Rightarrow> (shape \<times> jsstring) list \<Rightarrow> loop_state \<Rightarrow> loop_state" where
  "run_failed P upstream [] st = st"
| "run_failed P upstream ((which, candidate) # rest) st =
     run_failed P upstream rest
       (st\<lparr>requests := requests st @ [(which, candidate)],
           lastErrorText :=
             next_text P which (upstream (length (requests st))) (lastErrorText st)\<rparr>)"

subsection \<open>Client\<close>

text \<open>
  A frame as lines: the lines joined by single line feeds. A line is plain when it has
  no line feed in it and no carriage return at its end (\<open>split(/\r?\n/)\<close> would take
  that away).
\<close>

fun join_lines :: "jsstring list \<Rightarrow> jsstring" where
  "join_lines [] = []"
| "join_lines [l] = l"
| "join_lines (l # l' # ls) = l @ 10 # join_lines (l' # ls)"

definition plain_line :: "jsstring \<Rightarrow> bool" where
  "plain_line l = (10 \<notin> set l \<and> (l = [] \<or> last l \<noteq> 13))"

text \<open>
  The token text of a completions-shape event in the words of the specification. It
  is read from the first choice: from its delta, or else its message (the first of the
  two that is there and truthy). The content found there is plain text, or a list of
  segments whose texts are put together; a segment without a string \<open>text\<close> gives
  nothing, and so does a content that is missing or of another kind.
\<close>

definition token_source :: "'n platform \<Rightarrow> 'n json \<Rightarrow> 'n json option" where
  "token_source P choice =
     find (truthy P) (List.map_filter (get choice) [js ''delta'', js ''message''])"

definition segment_text :: "'n json \<Rightarrow> jsstring" where
  "segment_text segment = (case get segment (js ''text'') of Some (JStr t) \<Rightarrow> t | _ \<Rightarrow> [])"

definition completions_text :: "'n platform \<Rightarrow> 'n json \<Rightarrow> jsstring" where
  "completions_text P choice =
     (case Option.bind (token_source P choice) (\<lambda>d. get d (js ''content'')) of
        Some (JStr s) \<Rightarrow> s
      | Some (JArr segments) \<Rightarrow> concat (map segment_text segments)
      | _ \<Rightarrow> [])"

fun callback_id :: "'n callback \<Rightarrow> jsstring" where
  "callback_id (OnStart i) = i"
| "callback_id (OnToken t i) = i"
| "callback_id (OnDone i) = i"
| "callback_id (OnError t i) = i"
| "callback_id (OnAbort i) = i"

fun is_OnStart :: "'n callback \<Rightarrow> bool" where
  "is_OnStart (OnStart i) = True"
| "is_OnStart cb = False"

section \<open>Example inputs\<close>

text \<open>The bytes of an ASCII text.\<close>

definition ascii :: "string \<Rightarrow> chunk" where
  "ascii s = map of_char s"

text \<open>
  A platform for the examples, with natural numbers as its numbers. Its \<open>JSON.parse\<close>
  is the one of JavaScript on the texts listed and throws on every other text; the
  examples give it no other text that is JSON. They reach neither \<open>JSON.stringify\<close>
  nor \<open>String\<close> of a value that is not a string.
\<close>

definition sample_parse :: "jsstring \<Rightarrow> nat json option" where
  \<open>sample_parse =
     map_of
       [(js ''{"type":"message.output.delta","content":"ab"}'',
           JObj [(js ''type'', JStr (js ''message.output.delta'')),
                 (js ''content'', JStr (js ''ab''))]),
        (js ''{"type":"conversation.response.done"}'',
           JObj [(js ''type'', JStr (js ''conversation.response.done''))]),
        (js ''{"choices":[{"delta":{"content":"x"}}]}'',
           JObj [(js ''choices'',
                  JArr [JObj [(js ''delta'', JObj [(js ''content'', JStr (js ''x''))])]])]),
        (js ''{"choices":[{"delta":{"content":[{"text":"x"},{"text":"y"}]}}]}'',
           JObj [(js ''choices'',
                  JArr [JObj [(js ''delta'',
                     JObj [(js ''content'',
                            JArr [JObj [(js ''text'', JStr (js ''x''))],
                                  JObj [(js ''text'', JStr (js ''y''))]])])]])]),
        (js ''{"type":"message.output.delta","content":"'' @ [0xE9] @ js ''"}'',
           JObj [(js ''type'', JStr (js ''message.output.delta'')),
                 (js ''content'', JStr [0xE9])]),
        (js ''{"choices":[{"delta":{"role":"assistant"}}]}'',
           JObj [(js ''choices'',
                  JArr [JObj [(js ''delta'', JObj [(js ''role'', JStr (js ''assistant''))])]])]),
        (js ''{"type":"message.output.delta","choices":[{"delta":{"content":"x"}}]}'',
           JObj [(js ''type'', JStr (js ''message.output.delta'')),
                 (js ''choices'',
                  JArr [JObj [(js ''delta'', JObj [(js ''content'', JStr (js ''x''))])]])]),
        (js ''{"error":"e","choices":[{"delta":{"content":"x"}}]}'',
           JObj [(js ''error'', JStr (js ''e'')),
                 (js ''choices'',
                  JArr [JObj [(js ''delta'', JObj [(js ''content'', JStr (js ''x''))])]])])]\<close>

definition sample_platform :: "nat platform" where
  "sample_platform =
     \<lparr>JSON_parse = sample_parse,
      JSON_stringify = (\<lambda>v. js ''{}''),
      String_of = (\<lambda>v. js ''[object Object]''),
      num_truthy = (\<lambda>n. n \<noteq> 0)\<rparr>"

text \<open>
  A caller that stays connected, with a Node stream that delivers four bytes at its
  first read and the rest of the body at its second.
\<close>

definition connected :: relay_env where
  "connected = \<lparr>res_destroyed = (\<lambda>k. False), read_sizes = (\<lambda>n. [3])\<rparr>"

text \<open>Upstream answers: an error status with a plain text, and a response without body.\<close>

definition error_response :: "nat \<Rightarrow> string \<Rightarrow> fetch_result" where
  "error_response code txt =
     Responds \<lparr>status = code, content_type = Some (js ''text/plain''),
               text_result = Some (js txt), body = Some ([ascii txt], EndOfStream)\<rparr>"

definition no_body_response :: fetch_result where
  "no_body_response =
     Responds \<lparr>status = 204, content_type = Some (js ''text/event-stream''),
               text_result = Some [], body = None\<rparr>"

definition stream_response :: "chunk list \<Rightarrow> fetch_result" where
  "stream_response chunks =
     Responds \<lparr>status = 200, content_type = Some (js ''text/event-stream''),
               text_result = None, body = Some (chunks, EndOfStream)\<rparr>"

text \<open>Every attempt fails with an error status; the second text differs from the first.\<close>

definition upstream_errors :: "nat \<Rightarrow> fetch_result" where
  "upstream_errors n =
     (if n = 0 then error_response 500 ''overloaded'' else error_response 404 ''no such model'')"

text \<open>An error status first, then responses with status 204 and no body.\<close>

definition upstream_error_then_no_body :: "nat \<Rightarrow> fetch_result" where
  "upstream_error_then_no_body n =
     (if n = 0 then error_response 500 ''overloaded'' else no_body_response)"

text \<open>An error status first, then errors thrown with an empty message.\<close>

definition upstream_error_then_empty_throw :: "nat \<Rightarrow> fetch_result" where
  "upstream_error_then_empty_throw n =
     (if n = 0 then error_response 500 ''overloaded'' else Throws [])"

text \<open>A response with status 204 and no body first, then transport errors.\<close>

definition upstream_no_body_then_throw :: "nat \<Rightarrow> fetch_result" where
  "upstream_no_body_then_throw n =
     (if n = 0 then no_body_response else Throws (js ''fetch failed''))"

text \<open>
  Two error statuses, then an event stream of three chunks, the second of them empty,
  then transport errors.
\<close>

definition upstream_third_streams :: "nat \<Rightarrow> fetch_result" where
  "upstream_third_streams n =
     (if n < 2 then error_response 500 ''overloaded''
      else if n = 2 then stream_response [ascii ''data: 1'', [], [10, 10]]
      else Throws (js ''fetch failed''))"

text \<open>An event stream that fails after seven bytes, then transport errors.\<close>

definition upstream_stream_fails :: "nat \<Rightarrow> fetch_result" where
  "upstream_stream_fails n =
     (if n = 0 then
        Responds \<lparr>status = 200, content_type = Some (js ''text/event-stream''),
                  text_result = None,
                  body = Some ([ascii ''data: 1''], StreamError (js ''terminated''))\<rparr>
      else Throws (js ''fetch failed''))"

text \<open>
  A conversation-shape stream as the proxy relays it, in one chunk: a delta frame with
  content \<open>ab\<close>, then the terminal frame.
\<close>

definition delta_then_done :: chunk where
  \<open>delta_then_done =
     ascii ''data: {"type":"message.output.delta","content":"ab"}'' @ [10, 10]
     @ ascii ''data: {"type":"conversation.response.done"}'' @ [10, 10]\<close>

text \<open>The same with the delta frame once more after the terminal frame.\<close>

definition delta_done_delta :: chunk where
  \<open>delta_done_delta =
     ascii ''data: {"type":"message.output.delta","content":"ab"}'' @ [10, 10]
     @ ascii ''data: {"type":"conversation.response.done"}'' @ [10, 10]
     @ ascii ''data: {"type":"message.output.delta","content":"ab"}'' @ [10, 10]\<close>

text \<open>
  A delta frame whose content is the character U+00E9 (two bytes in UTF-8) and the
  terminal frame, cut into three chunks: inside the character and inside the delimiter.
\<close>

definition split_chunks :: "chunk list" where
  \<open>split_chunks =
     [ascii ''data: {"type":"message.output.delta","content":"'' @ [0xC3],
      [0xA9] @ ascii ''"}'' @ [10],
      [10] @ ascii ''data: {"type":"conversation.response.done"}'' @ [10, 10]]\<close>

definition ok_reply :: "chunk list \<Rightarrow> reply_result" where
  "ok_reply chunks =
     FetchResponds \<lparr>reply_status = 200, reply_text = None, reply_body = Some (chunks, ReadDone)\<rparr>"

section \<open>Properties of the dispatcher\<close>

lemma try_plan_append:
  "try_plan P up d (as @ bs) st =
     (case try_plan P up d as st of
        (st', True) \<Rightarrow> (st', True)
      | (st', False) \<Rightarrow> try_plan P up d bs st')"
  by (induction as arbitrary: st) (auto split: prod.splits bool.splits)

lemma try_order_plan:
  "try_order P up d c ws st = try_plan P up d (map (\<lambda>w. (w, c)) ws) st"
  by (induction ws arbitrary: st) (auto split: prod.splits bool.splits)

lemma order_plan:
  "map (\<lambda>w. (w, c)) (order c) =
     (if c \<in> set PREFER_CHAT then [(Chat, c), (Conv, c)] else [(Conv, c), (Chat, c)])"
  by (simp add: order_def)

lemma try_families_plan:
  "try_families P up d names st = try_plan P up d (attempt_plan names) st"
proof (induction names arbitrary: st)
  case Nil
  show ?case by (simp add: attempt_plan_def)
next
  case (Cons c names)
  have split: "attempt_plan (c # names) = map (\<lambda>w. (w, c)) (order c) @ attempt_plan names"
    by (simp add: attempt_plan_def order_def)
  show ?case
    unfolding split try_plan_append
    by (simp add: try_order_plan Cons.IH split: prod.splits bool.splits)
qed

lemma call_endpoint_Throws: "call_endpoint l1 l2 P (Throws m) = Inl m"
  by (simp add: call_endpoint_def)

lemma call_shape_Throws: "call_shape P w (Throws m) = Inl m"
  by (cases w) (simp_all add: call_shape_def callChatCompletions_def callConversations_def call_endpoint_Throws)

lemma call_endpoint_Responds:
  "call_endpoint l1 l2 P (Responds r) = Inr c \<Longrightarrow>
     response c = r \<and> (ok c \<longleftrightarrow> response_ok r \<and> is_event_stream r) \<and> (streamable c \<longleftrightarrow> ok c)
     \<and> (ok c \<longrightarrow> errorText c = [])"
  by (auto simp: call_endpoint_def is_event_stream_def Let_def split: if_splits)

lemma call_endpoint_Responds_ex: "\<exists>c. call_endpoint l1 l2 P (Responds r) = Inr c"
  by (simp add: call_endpoint_def Let_def)

lemma call_shape_Responds:
  "call_shape P w (Responds r) = Inr c \<Longrightarrow>
     response c = r \<and> (ok c \<longleftrightarrow> response_ok r \<and> is_event_stream r) \<and> (streamable c \<longleftrightarrow> ok c)
     \<and> (ok c \<longrightarrow> errorText c = [])"
  by (cases w) (auto simp: call_shape_def callChatCompletions_def callConversations_def
      dest: call_endpoint_Responds)

lemma call_shape_Responds_ex: "\<exists>c. call_shape P w (Responds r) = Inr c"
  by (cases w) (simp_all add: call_shape_def callChatCompletions_def callConversations_def call_endpoint_Responds_ex)

lemma attempt_call_shape:
  "attempt P up d c w st =
     (let fr = up (length (requests st));
          st1 = st\<lparr>requests := requests st @ [(w, c)]\<rparr>
      in case call_shape P w fr of
           Inl msg \<Rightarrow> (st1\<lparr>lastErrorText := msg\<rparr>, False)
         | Inr r \<Rightarrow>
             (case (if ok r \<and> streamable r then body (response r) else None) of
                Some (chunks, e) \<Rightarrow>
                  if headersSent st1 then (st1\<lparr>lastErrorText := ERR_HTTP_HEADERS_SENT\<rparr>, False)
                  else
                    (case relay d (read_sizes d (length (requests st))) (concat chunks) e
                            (written st1) of
                       (w, None) \<Rightarrow> (st1\<lparr>written := w\<rparr>, True)
                     | (w, Some msg) \<Rightarrow> (st1\<lparr>written := w, lastErrorText := msg\<rparr>, False))
              | None \<Rightarrow> (st1\<lparr>lastErrorText := or_else (errorText r) (lastErrorText st1)\<rparr>, False)))"
  by (simp add: attempt_def call_shape_def)

lemma attempt_not_relayable:
  assumes "\<not> relayable (up (length (requests st)))"
  shows "attempt P up d c w st =
           (st\<lparr>requests := requests st @ [(w, c)],
               lastErrorText := next_text P w (up (length (requests st))) (lastErrorText st)\<rparr>, False)"
proof (cases "up (length (requests st))")
  case (Throws m)
  then show ?thesis
    by (simp add: attempt_call_shape call_shape_Throws next_text_def)
next
  case (Responds r)
  obtain c' where c': "call_shape P w (Responds r) = Inr c'"
    using call_shape_Responds_ex by blast
  note props = call_shape_Responds [OF c']
  from assms Responds have "\<not> (response_ok r \<and> is_event_stream r) \<or> body r = None"
    by (cases "body r") (auto simp: relayable_def)
  with props have none: "(if ok c' \<and> streamable c' then body (response c') else None) = None"
    by auto
  show ?thesis
    unfolding attempt_call_shape Let_def Responds c' 
    by (simp add: none next_text_def error_text_def c')
qed

lemma relay_EndOfStream: "snd (relay env sizes bs EndOfStream w) = None"
proof (induction sizes arbitrary: bs w)
  case Nil
  then show ?case by (cases bs) simp_all
next
  case (Cons n ns)
  then show ?case by (cases bs) simp_all
qed

lemma relay_prefix: "\<exists>k. fst (relay env sizes bs EndOfStream w) = w @ take k bs"
proof (induction sizes arbitrary: bs w)
  case Nil
  show ?case
  proof (cases bs)
    case Nil
    then show ?thesis by simp
  next
    case (Cons b bs')
    show ?thesis
    proof (cases "res_destroyed env (length w)")
      case True
      then have "fst (relay env [] bs EndOfStream w) = w @ take 0 bs" using Cons by simp
      then show ?thesis by blast
    next
      case False
      then have "fst (relay env [] bs EndOfStream w) = w @ take (length bs) bs" using Cons by simp
      then show ?thesis by blast
    qed
  qed
next
  case (Cons n ns)
  show ?case
  proof (cases bs)
    case Nil
    then show ?thesis by simp
  next
    case bs: (Cons b bs')
    show ?thesis
    proof (cases "res_destroyed env (length w)")
      case True
      then have "fst (relay env (n # ns) bs EndOfStream w) = w @ take 0 bs" using bs by simp
      then show ?thesis by blast
    next
      case False
      obtain k where
        k: "fst (relay env ns (drop n bs') EndOfStream (w @ b # take n bs')) =
              (w @ b # take n bs') @ take k (drop n bs')"
        using Cons.IH by blast
      have "take n bs' @ take k (drop n bs') = take (n + k) bs'"
        by (simp add: take_add)
      then have "fst (relay env (n # ns) bs EndOfStream w) = w @ take (Suc (n + k)) bs"
        using False bs k by simp
      then show ?thesis by blast
    qed
  qed
qed

lemma relay_connected:
  "(\<forall>j. length w \<le> j \<and> j < length w + length bs \<longrightarrow> \<not> res_destroyed env j) \<Longrightarrow>
     fst (relay env sizes bs EndOfStream w) = w @ bs"
proof (induction sizes arbitrary: bs w)
  case Nil
  then show ?case by (cases bs) simp_all
next
  case (Cons n ns)
  show ?case
  proof (cases bs)
    case Nil
    then show ?thesis by simp
  next
    case bs: (Cons b bs')
    have now: "\<not> res_destroyed env (length w)"
      using Cons.prems bs by simp
    have "fst (relay env ns (drop n bs') EndOfStream (w @ b # take n bs')) =
            (w @ b # take n bs') @ drop n bs'"
      by (rule Cons.IH) (use Cons.prems bs in auto)
    then show ?thesis using now bs by simp
  qed
qed

lemma attempt_relayed:
  assumes "up (length (requests st)) = Responds r"
    and "response_ok r" and "is_event_stream r" and "body r = Some (chunks, EndOfStream)"
    and "written st = []"
  shows "attempt P up d c w st =
           (st\<lparr>requests := requests st @ [(w, c)],
               written := fst (relay d (read_sizes d (length (requests st))) (concat chunks)
                                 EndOfStream [])\<rparr>, True)"
proof -
  obtain c' where c': "call_shape P w (Responds r) = Inr c'"
    using call_shape_Responds_ex by blast
  note props = call_shape_Responds [OF c']
  from props assms have some:
    "(if ok c' \<and> streamable c' then body (response c') else None) = Some (chunks, EndOfStream)"
    by auto
  let ?run = "relay d (read_sizes d (length (requests st))) (concat chunks) EndOfStream []"
  obtain w' where w': "?run = (w', None)"
    using relay_EndOfStream [of d "read_sizes d (length (requests st))" "concat chunks" "[]"]
    by (cases ?run) auto
  show ?thesis
    unfolding attempt_call_shape Let_def assms(1) c'
    by (simp add: some headersSent_def assms(5) w')
qed

lemma run_failed_requests: "requests (run_failed P up as st) = requests st @ as"
  by (induction as arbitrary: st) auto

lemma run_failed_written: "written (run_failed P up as st) = written st"
  by (induction as arbitrary: st) auto

lemma run_failed_snoc:
  "run_failed P up (as @ [(w, c)]) st =
     (let st' = run_failed P up as st in
      st'\<lparr>requests := requests st' @ [(w, c)],
          lastErrorText := next_text P w (up (length (requests st'))) (lastErrorText st')\<rparr>)"
  by (induction as arbitrary: st) (auto simp: Let_def)

lemma try_plan_failed:
  "(\<forall>i. length (requests st) \<le> i \<and> i < length (requests st) + length as \<longrightarrow> \<not> relayable (up i))
     \<Longrightarrow> try_plan P up d as st = (run_failed P up as st, False)"
proof (induction as arbitrary: st)
  case Nil
  show ?case by simp
next
  case (Cons a as)
  obtain w c where a: "a = (w, c)" by (cases a)
  have first: "\<not> relayable (up (length (requests st)))"
    using Cons.prems by simp
  let ?st = "st\<lparr>requests := requests st @ [(w, c)],
               lastErrorText := next_text P w (up (length (requests st))) (lastErrorText st)\<rparr>"
  have "try_plan P up d as ?st = (run_failed P up as ?st, False)"
    by (rule Cons.IH) (use Cons.prems in auto)
  moreover have "attempt P up d c w st = (?st, False)"
    using first by (rule attempt_not_relayable)
  ultimately show ?case
    by (simp add: a)
qed

lemma next_text_nonempty:
  "error_text P w fr \<noteq> [] \<Longrightarrow> next_text P w fr prev = error_text P w fr"
  by (cases fr) (simp_all add: next_text_def or_else_def error_text_def call_shape_Throws)


lemma families_nonempty: "families model = Names names \<Longrightarrow> names \<noteq> []"
  by (auto simp: families_def FAMILY_ALIASES_def split: option.splits if_splits)

lemma attempt_plan_nonempty: "names \<noteq> [] \<Longrightarrow> attempt_plan names \<noteq> []"
  by (cases names) (auto simp: attempt_plan_def)

text \<open>
  Claim C2, as amended. Let no attempt of the sequence be relayed: each one ends in a
  thrown error, a status that is not 2xx, a 2xx status without an event-stream content
  type, or a 2xx event-stream response without a body. If the error text of the last
  attempt is not empty, the handler sends every request of the sequence and answers
  with the JSON error of status 502 whose message is that text, whatever the earlier
  attempts recorded. (By \<open>error_text_nonempty\<close> the text of a response that is not 2xx
  or not an event stream is never empty.)
\<close>
theorem aggregated_error_last_nonempty:
  assumes fam: "families model = Names names"
    and fail: "\<forall>i < length (attempt_plan names). \<not> relayable (up i)"
    and nonempty: "error_text P (fst (last (attempt_plan names))) (up (length (attempt_plan names) - 1)) \<noteq> []"
  shows "dispatch P up d model =
           \<lparr>sent = attempt_plan names,
            outcome = Json502 (error_text P (fst (last (attempt_plan names)))
                                 (up (length (attempt_plan names) - 1)))\<rparr>"
proof -
  let ?plan = "attempt_plan names"
  let ?st0 = "\<lparr>lastErrorText = [], requests = [], written = []\<rparr>"
  have ne: "?plan \<noteq> []"
    using fam by (simp add: families_nonempty attempt_plan_nonempty)
  obtain w c where lastp: "last ?plan = (w, c)" by (cases "last ?plan")
  have plan: "?plan = butlast ?plan @ [(w, c)]"
    using ne lastp by (metis append_butlast_last_id)
  have run: "try_families P up d names ?st0 = (run_failed P up ?plan ?st0, False)"
    unfolding try_families_plan by (rule try_plan_failed) (use fail in simp)
  have len: "length (butlast ?plan) = length ?plan - 1" by simp
  have "lastErrorText (run_failed P up (butlast ?plan @ [(w, c)]) ?st0) =
          error_text P w (up (length ?plan - 1))"
    using nonempty lastp
    by (simp add: run_failed_snoc Let_def run_failed_requests next_text_nonempty)
  then have last_text: "lastErrorText (run_failed P up ?plan ?st0) = error_text P w (up (length ?plan - 1))"
    using plan by simp
  have "\<not> headersSent (run_failed P up ?plan ?st0)"
    by (simp add: headersSent_def run_failed_written)
  then show ?thesis
    using nonempty lastp
    by (simp add: dispatch_def fam run last_text run_failed_requests or_else_def)
qed

text \<open>
  Claim C3, as amended. Let the attempts before attempt \<open>n\<close> (counted from 0) not be
  relayed, and let attempt \<open>n\<close> answer with a 2xx status, an event-stream content type
  and a body whose stream ends without an error. Then the handler has sent the first
  \<open>n + 1\<close> requests of the sequence and no other, and it ends the response after it
  wrote the bytes of that body to the caller, unchanged and in order: all of them when
  the caller stays connected, an initial part of them when it does not. (How the bytes
  are cut into chunks is the Node stream's affair.)
\<close>

theorem first_streamable_wins:
  assumes fam: "families model = Names names"
    and n: "n < length (attempt_plan names)"
    and fail: "\<forall>i < n. \<not> relayable (up i)"
    and win: "up n = Responds r" "response_ok r" "is_event_stream r"
             "body r = Some (chunks, EndOfStream)"
  shows "sent (dispatch P up d model) = take (Suc n) (attempt_plan names)
       \<and> (\<exists>k. outcome (dispatch P up d model) = Streamed (take k (concat chunks)))
       \<and> ((\<forall>k < length (concat chunks). \<not> res_destroyed d k) \<longrightarrow>
            outcome (dispatch P up d model) = Streamed (concat chunks))"
proof -
  let ?plan = "attempt_plan names"
  let ?st0 = "\<lparr>lastErrorText = [], requests = [], written = []\<rparr>"
  let ?st1 = "run_failed P up (take n ?plan) ?st0"
  let ?w = "fst (relay d (read_sizes d n) (concat chunks) EndOfStream [])"
  obtain w c where nth: "?plan ! n = (w, c)" by (cases "?plan ! n")
  have plan: "?plan = take n ?plan @ (w, c) # drop (Suc n) ?plan"
    using n nth by (metis id_take_nth_drop)
  have before: "try_plan P up d (take n ?plan) ?st0 = (?st1, False)"
    by (rule try_plan_failed) (use fail n in simp)
  have req1: "requests ?st1 = take n ?plan" by (simp add: run_failed_requests)
  have len1: "length (requests ?st1) = n" using n by (simp add: req1)
  have wr1: "written ?st1 = []" by (simp add: run_failed_written)
  have att: "attempt P up d c w ?st1 =
               (?st1\<lparr>requests := requests ?st1 @ [(w, c)], written := ?w\<rparr>, True)"
    using attempt_relayed [of up ?st1 r chunks P d c w] win wr1 len1 by simp
  have "try_plan P up d ?plan ?st0 =
          (?st1\<lparr>requests := requests ?st1 @ [(w, c)], written := ?w\<rparr>, True)"
    by (subst plan) (simp add: try_plan_append before att)
  moreover have "take (Suc n) ?plan = take n ?plan @ [(w, c)]"
    using n nth by (simp add: take_Suc_conv_app_nth)
  ultimately have run: "dispatch P up d model =
      \<lparr>sent = take (Suc n) ?plan, outcome = Streamed ?w\<rparr>"
    by (simp add: dispatch_def fam try_families_plan req1)
  obtain k where k: "?w = take k (concat chunks)"
    using relay_prefix [of d "read_sizes d n" "concat chunks" "[]"] by auto
  have all: "?w = concat chunks" if "\<forall>k < length (concat chunks). \<not> res_destroyed d k"
    using relay_connected [of "[]" "concat chunks" d "read_sizes d n"] that by simp
  show ?thesis
    using k all by (auto simp: run)
qed

lemma attempt_requests:
  "requests (fst (attempt P up d c w st)) = requests st @ [(w, c)]"
  by (auto simp: attempt_call_shape Let_def split: sum.splits option.splits prod.splits)

lemma try_plan_requests:
  "\<exists>k. requests (fst (try_plan P up d as st)) = requests st @ take k as
       \<and> (\<not> snd (try_plan P up d as st) \<longrightarrow> k = length as)
       \<and> (snd (try_plan P up d as st) \<longrightarrow> 0 < k)"
proof (induction as arbitrary: st)
  case Nil
  show ?case by simp
next
  case (Cons a as)
  obtain w c where a: "a = (w, c)" by (cases a)
  obtain st' b where att: "attempt P up d c w st = (st', b)" by (cases "attempt P up d c w st")
  have req: "requests st' = requests st @ [(w, c)]"
    using attempt_requests [of P up d c w st] att by simp
  show ?case
  proof (cases b)
    case True
    then have "requests (fst (try_plan P up d (a # as) st)) = requests st @ take 1 (a # as)"
      and "snd (try_plan P up d (a # as) st)"
      using att req by (simp_all add: a)
    then show ?thesis by (intro exI [of _ 1]) simp
  next
    case False
    from Cons.IH [of st'] obtain k where
      k: "requests (fst (try_plan P up d as st')) = requests st' @ take k as"
         "\<not> snd (try_plan P up d as st') \<longrightarrow> k = length as"
      by blast
    have eq: "try_plan P up d ((w, c) # as) st = try_plan P up d as st'"
      using att False by simp
    show ?thesis
      unfolding a eq by (intro exI [of _ "Suc k"]) (use k req in simp)
  qed
qed

text \<open>
  Claim C6. For a model whose candidates are \<open>names\<close>, the requests the handler sends
  are the attempt sequence of the specification, in which a candidate of the
  shape-preference set has the completions shape before the conversation shape and
  every other candidate the conversation shape first: all of it when no stream was
  relayed, and a non-empty initial part of it when one was. Membership in the set is
  equality of the code units, so a name that differs in the case of a letter is not a
  member.
\<close>
theorem shape_order_of_requests:
  assumes "families model = Names names"
  shows "case outcome (dispatch P up d model) of
           Streamed chunks \<Rightarrow> (\<exists>k>0. sent (dispatch P up d model) = take k (attempt_plan names))
         | other \<Rightarrow> sent (dispatch P up d model) = attempt_plan names"
proof -
  let ?st0 = "\<lparr>lastErrorText = [], requests = [], written = []\<rparr>"
  obtain st b where run: "try_plan P up d (attempt_plan names) ?st0 = (st, b)"
    by (cases "try_plan P up d (attempt_plan names) ?st0")
  from try_plan_requests [of P up d "attempt_plan names" ?st0] run obtain k where
    k: "requests st = take k (attempt_plan names)" "\<not> b \<longrightarrow> k = length (attempt_plan names)"
       "b \<longrightarrow> 0 < k"
    by auto
  show ?thesis
  proof (cases b)
    case True
    then show ?thesis using k run assms
      by (auto simp: dispatch_def try_families_plan)
  next
    case False
    then show ?thesis using k run assms
      by (simp add: dispatch_def try_families_plan)
  qed
qed

text \<open>
  Claim C7 fails on the code: \<open>constructor\<close> is not a key of the alias table, but
  \<open>FAMILY_ALIASES["constructor"]\<close> is the inherited function \<open>Object\<close>, which is truthy, so
  the fallback \<open>[model]\<close> is not taken and the loop over \<open>families\<close> throws a \<open>TypeError\<close>:
  no request is sent and the handler rejects. (For a name that is neither a key of the
  table nor a property of \<open>Object.prototype\<close>, \<open>unknown_model_two_attempts\<close> gives the
  two attempts of the claim.)
\<close>
theorem inherited_name_not_iterable:
  "dispatch P up d (js ''constructor'') =
     \<lparr>sent = [], outcome = Rejected (js ''families is not iterable'')\<rparr>"
  by (simp add: dispatch_def families_def FAMILY_ALIASES_def Object_prototype_props_def js_def)

text \<open>
  Claim C5. \<open>magistral-latest\<close> resolves to the medium variant, the small variant, and
  the same two without \<open>-latest\<close>, in this order; \<open>devstral-latest\<close> likewise.
\<close>
theorem latest_family_expansion:
  "families (js ''magistral-latest'') =
     Names [js ''magistral-medium-latest'', js ''magistral-small-latest'',
            js ''magistral-medium'', js ''magistral-small'']
   \<and> families (js ''devstral-latest'') =
     Names [js ''devstral-medium-latest'', js ''devstral-small-latest'',
            js ''devstral-medium'', js ''devstral-small'']"
  by (simp add: families_def FAMILY_ALIASES_def js_def)


lemma attempt_fails_not_relayable: "attempt_fails fr \<Longrightarrow> \<not> relayable fr"
  by (auto simp: attempt_fails_def relayable_def split: fetch_result.splits)

lemma js_nonempty: "s \<noteq> [] \<Longrightarrow> js s \<noteq> []"
  by (simp add: js_def)

lemma call_endpoint_error_text:
  assumes "\<not> response_ok r \<or> \<not> is_event_stream r" and "l2 \<noteq> []"
    and "call_endpoint l1 l2 P (Responds r) = Inr c"
  shows "errorText c \<noteq> []"
proof (cases "response_ok r")
  case False
  have "to_dec n \<noteq> []" for n
    by (subst to_dec.simps) simp
  then have "or_else a (or_else b (l1 @ to_dec (status r))) \<noteq> []" for a b
    by (simp add: or_else_def)
  with assms(3) False show ?thesis
    by (auto simp: call_endpoint_def Let_def)
next
  case True
  with assms(1) have "\<not> is_event_stream r" by simp
  moreover have "or_else a (or_else b l2) \<noteq> []" for a b
    using assms(2) by (simp add: or_else_def)
  ultimately show ?thesis
    using assms(3) True by (auto simp: call_endpoint_def is_event_stream_def Let_def)
qed

lemma error_text_nonempty:
  assumes "\<not> response_ok r \<or> \<not> is_event_stream r"
  shows "error_text P w (Responds r) \<noteq> []"
proof -
  obtain c where c: "call_shape P w (Responds r) = Inr c"
    using call_shape_Responds_ex by blast
  have "errorText c \<noteq> []"
  proof (cases w)
    case Chat
    with c have ep: "call_endpoint (js ''chat/completions upstream error: '')
                   (js ''chat/completions did not return SSE'') P (Responds r) = Inr c"
      by (simp add: call_shape_def callChatCompletions_def)
    show ?thesis
      by (rule call_endpoint_error_text [OF assms _ ep]) (simp add: js_def)
  next
    case Conv
    with c have ep: "call_endpoint (js ''conversations upstream error: '')
                   (js ''conversations did not return SSE'') P (Responds r) = Inr c"
      by (simp add: call_shape_def callConversations_def)
    show ?thesis
      by (rule call_endpoint_error_text [OF assms _ ep]) (simp add: js_def)
  qed
  then show ?thesis by (simp add: error_text_def c)
qed

lemma unknown_model_two_attempts:
  assumes "map_of FAMILY_ALIASES X = None" and "X \<notin> set Object_prototype_props"
  shows "families X = Names [X]"
    and "attempt_plan [X] =
           (if X \<in> set PREFER_CHAT then [(Chat, X), (Conv, X)] else [(Conv, X), (Chat, X)])"
  using assms by (simp_all add: families_def attempt_plan_def)

lemmas example_defs =
  sample_platform_def sample_parse_def error_response_def no_body_response_def
  stream_response_def ascii_def js_def

lemma families_x: "families (js ''x'') = Names [js ''x'']"
  by (simp add: families_def FAMILY_ALIASES_def Object_prototype_props_def js_def)

lemma plan_x: "attempt_plan [js ''x''] = [(Conv, js ''x''), (Chat, js ''x'')]"
  by (simp add: attempt_plan_def PREFER_CHAT_def js_def)

lemma error_response_not_ok: "400 \<le> code \<Longrightarrow> \<not> relayable (error_response code txt)"
  by (simp add: relayable_def error_response_def response_ok_def)

lemma error_response_text:
  "400 \<le> code \<Longrightarrow> txt \<noteq> [] \<Longrightarrow> JSON_parse P (js txt) = None \<Longrightarrow>
     error_text P w (error_response code txt) = js txt"
  by (cases w)
     (simp_all add: error_text_def call_shape_def callChatCompletions_def callConversations_def
        call_endpoint_def error_response_def response_ok_def parseUpstreamError_def or_else_def
        Let_def js_def)

lemma sample_parse_overloaded: "JSON_parse sample_platform (js ''overloaded'') = None"
  by (simp add: example_defs)

lemma sample_parse_no_such_model: "JSON_parse sample_platform (js ''no such model'') = None"
  by (simp add: example_defs)

lemma throws_not_relayable: "\<not> relayable (Throws msg)"
  by (simp add: relayable_def)

lemma no_body_not_relayable: "\<not> relayable no_body_response"
  by (simp add: relayable_def no_body_response_def)

lemma no_body_event_stream:
  "\<exists>r. no_body_response = Responds r \<and> response_ok r \<and> is_event_stream r"
  by (simp add: no_body_response_def response_ok_def is_event_stream_def toLowerCase_def
      lower_unit_def js_def)

lemma no_body_error_text: "error_text P w no_body_response = []"
proof -
  obtain r where r: "no_body_response = Responds r" "response_ok r" "is_event_stream r"
    using no_body_event_stream by blast
  obtain c where c: "call_shape P w (Responds r) = Inr c"
    using call_shape_Responds_ex by blast
  from call_shape_Responds [OF c] r have "errorText c = []" by simp
  then show ?thesis by (simp add: error_text_def r(1) c)
qed

text \<open>
  The amended claim C2 at the unknown model \<open>x\<close>, where the first attempt answers 500
  with the text \<open>overloaded\<close> and the second 404 with \<open>no such model\<close>.
\<close>
theorem aggregated_error_last_nonempty_witness:
  "dispatch sample_platform upstream_errors connected (js ''x'') =
     \<lparr>sent = [(Conv, js ''x''), (Chat, js ''x'')], outcome = Json502 (js ''no such model'')\<rparr>
   \<and> error_text sample_platform Conv (upstream_errors 0) = js ''overloaded''
   \<and> error_text sample_platform Chat (upstream_errors 1) = js ''no such model''"
proof -
  have t0: "error_text sample_platform Conv (upstream_errors 0) = js ''overloaded''"
    by (simp add: upstream_errors_def error_response_text sample_parse_overloaded)
  have t1: "error_text sample_platform Chat (upstream_errors (Suc 0)) = js ''no such model''"
    by (simp add: upstream_errors_def error_response_text sample_parse_no_such_model)
  have fail: "\<forall>i < length (attempt_plan [js ''x'']). \<not> relayable (upstream_errors i)"
    by (simp add: upstream_errors_def error_response_not_ok)
  have nonempty:
    "error_text sample_platform (fst (last (attempt_plan [js ''x''])))
       (upstream_errors (length (attempt_plan [js ''x'']) - 1)) \<noteq> []"
    by (simp add: plan_x t1 js_nonempty)
  show ?thesis
    using aggregated_error_last_nonempty [OF families_x fail nonempty, of connected]
    by (simp add: plan_x t0 t1)
qed

text \<open>
  Claim C2 as stated fails where the last attempt records an empty text. For the model
  \<open>x\<close> the attempts are conversation, then completions. When the first answers 500
  with \<open>overloaded\<close> and the second answers 204 with an event-stream content type and
  no body, the second is not relayed, its error text is empty, and \<open>errorText ||
  lastErrorText\<close> keeps the text of the first attempt: the message is \<open>overloaded\<close>. When
  the second throws an error with an empty message, the message is the fixed text of
  \<open>lastErrorText || "Upstream streaming failed for selected model"\<close>.
\<close>
theorem aggregated_error_counterexample:
  "attempt_plan [js ''x''] = [(Conv, js ''x''), (Chat, js ''x'')]
   \<and> \<not> relayable (upstream_error_then_no_body 0) \<and> \<not> relayable (upstream_error_then_no_body 1)
   \<and> error_text sample_platform Conv (upstream_error_then_no_body 0) = js ''overloaded''
   \<and> error_text sample_platform Chat (upstream_error_then_no_body 1) = []
   \<and> dispatch sample_platform upstream_error_then_no_body connected (js ''x'') =
       \<lparr>sent = [(Conv, js ''x''), (Chat, js ''x'')], outcome = Json502 (js ''overloaded'')\<rparr>
   \<and> attempt_fails (upstream_error_then_empty_throw 0)
   \<and> attempt_fails (upstream_error_then_empty_throw 1)
   \<and> error_text sample_platform Chat (upstream_error_then_empty_throw 1) = []
   \<and> dispatch sample_platform upstream_error_then_empty_throw connected (js ''x'') =
       \<lparr>sent = [(Conv, js ''x''), (Chat, js ''x'')],
        outcome = Json502 (js ''Upstream streaming failed for selected model'')\<rparr>"
proof -
  let ?st0 = "\<lparr>lastErrorText = [], requests = [], written = []\<rparr>"
  have t0: "error_text sample_platform Conv (error_response 500 ''overloaded'') = js ''overloaded''"
    by (simp add: error_response_text sample_parse_overloaded)
  have a: "try_families sample_platform upstream_error_then_no_body connected [js ''x''] ?st0 =
        (run_failed sample_platform upstream_error_then_no_body (attempt_plan [js ''x'']) ?st0, False)"
    unfolding try_families_plan
    by (rule try_plan_failed)
       (simp add: upstream_error_then_no_body_def error_response_not_ok no_body_not_relayable)
  have b: "try_families sample_platform upstream_error_then_empty_throw connected [js ''x''] ?st0 =
        (run_failed sample_platform upstream_error_then_empty_throw (attempt_plan [js ''x'']) ?st0, False)"
    unfolding try_families_plan
    by (rule try_plan_failed)
       (simp add: upstream_error_then_empty_throw_def error_response_not_ok throws_not_relayable)
  have fails: "attempt_fails (error_response 500 ''overloaded'')" "attempt_fails (Throws [])"
    by (simp_all add: attempt_fails_def error_response_def response_ok_def)
  have thrown: "error_text sample_platform Chat (Throws []) = []"
    by (simp add: error_text_def call_shape_Throws)
  have ne: "js ''overloaded'' \<noteq> []" by (simp add: js_nonempty)
  have nt0: "next_text sample_platform Conv (error_response 500 ''overloaded'') [] = js ''overloaded''"
    using ne by (simp add: next_text_def error_response_def or_else_def t0 [unfolded error_response_def])
  have nt1: "next_text sample_platform Chat no_body_response prev = prev" for prev
    using no_body_error_text [of sample_platform Chat]
    by (simp add: next_text_def no_body_response_def or_else_def)
  have nt2: "next_text sample_platform Chat (Throws []) prev = []" for prev
    by (simp add: next_text_def)
  show ?thesis
    using ne
    by (simp add: plan_x dispatch_def families_x a b upstream_error_then_no_body_def
        upstream_error_then_empty_throw_def error_response_not_ok no_body_not_relayable
        no_body_error_text t0 fails thrown nt0 nt1 nt2 or_else_def headersSent_def
        del: try_families.simps)
qed


text \<open>
  Claim C3 as stated fails on a response without a body: the guard is \<open>ok && streamable
  && response?.body\<close>. For the model \<open>x\<close>, when the first attempt answers 204 with an
  event-stream content type and no body, nothing is relayed and the second request is
  sent.
\<close>
theorem first_streamable_counterexample:
  "(\<exists>r. upstream_no_body_then_throw 0 = Responds r \<and> response_ok r \<and> is_event_stream r)
   \<and> dispatch sample_platform upstream_no_body_then_throw connected (js ''x'') =
       \<lparr>sent = [(Conv, js ''x''), (Chat, js ''x'')], outcome = Json502 (js ''fetch failed'')\<rparr>"
proof -
  let ?st0 = "\<lparr>lastErrorText = [], requests = [], written = []\<rparr>"
  have a: "try_families sample_platform upstream_no_body_then_throw connected [js ''x''] ?st0 =
        (run_failed sample_platform upstream_no_body_then_throw (attempt_plan [js ''x'']) ?st0, False)"
    unfolding try_families_plan
    by (rule try_plan_failed)
       (simp add: upstream_no_body_then_throw_def no_body_not_relayable throws_not_relayable)
  have nt1: "next_text sample_platform Conv no_body_response prev = prev" for prev
    using no_body_error_text [of sample_platform Conv]
    by (simp add: next_text_def no_body_response_def or_else_def)
  have nt2: "next_text sample_platform Chat (Throws m) prev = m" for m prev
    by (simp add: next_text_def)
  have ne: "js ''fetch failed'' \<noteq> []" by (simp add: js_nonempty)
  show ?thesis
    using ne no_body_event_stream
    by (simp add: plan_x dispatch_def families_x a upstream_no_body_then_throw_def
        nt1 nt2 or_else_def headersSent_def del: try_families.simps)
qed

lemma families_magistral:
  "families (js ''magistral-latest'') =
     Names [js ''magistral-medium-latest'', js ''magistral-small-latest'',
            js ''magistral-medium'', js ''magistral-small'']"
  by (simp add: families_def FAMILY_ALIASES_def js_def)

lemma plan_magistral:
  "attempt_plan [js ''magistral-medium-latest'', js ''magistral-small-latest'',
                 js ''magistral-medium'', js ''magistral-small''] =
     [(Chat, js ''magistral-medium-latest''), (Conv, js ''magistral-medium-latest''),
      (Chat, js ''magistral-small-latest''), (Conv, js ''magistral-small-latest''),
      (Chat, js ''magistral-medium''), (Conv, js ''magistral-medium''),
      (Chat, js ''magistral-small''), (Conv, js ''magistral-small'')]"
  by (simp add: attempt_plan_def PREFER_CHAT_def js_def)

text \<open>
  The amended claim C3 at \<open>magistral-latest\<close>, where the third attempt streams seven
  bytes and two line feeds in three chunks, one of them empty, to a caller that stays
  connected.
\<close>

theorem first_streamable_wins_witness:
  "dispatch sample_platform upstream_third_streams connected (js ''magistral-latest'') =
     \<lparr>sent = [(Chat, js ''magistral-medium-latest''), (Conv, js ''magistral-medium-latest''),
              (Chat, js ''magistral-small-latest'')],
      outcome = Streamed (ascii ''data: 1'' @ [10, 10])\<rparr>"
proof -
  let ?names = "[js ''magistral-medium-latest'', js ''magistral-small-latest'',
                 js ''magistral-medium'', js ''magistral-small'']"
  let ?chunks = "[ascii ''data: 1'', [], [10, 10]]"
  let ?r = "\<lparr>status = 200, content_type = Some (js ''text/event-stream''),
             text_result = None, body = Some (?chunks, EndOfStream)\<rparr>"
  have n: "2 < length (attempt_plan ?names)"
    by (simp add: plan_magistral)
  have fail: "\<forall>i < 2. \<not> relayable (upstream_third_streams i)"
    by (simp add: upstream_third_streams_def error_response_not_ok)
  have win: "upstream_third_streams 2 = Responds ?r"
    by (simp add: upstream_third_streams_def stream_response_def)
  have ok: "response_ok ?r" by (simp add: response_ok_def)
  have es: "is_event_stream ?r"
    by (simp add: is_event_stream_def toLowerCase_def lower_unit_def js_def)
  have bd: "body ?r = Some (?chunks, EndOfStream)" by simp
  have conn: "\<forall>k < length (concat ?chunks). \<not> res_destroyed connected k"
    by (simp add: connected_def)
  have bytes: "concat ?chunks = ascii ''data: 1'' @ [10, 10]" by simp
  show ?thesis
    using first_streamable_wins
      [OF families_magistral n fail win ok es bd, of sample_platform connected] conn
    unfolding bytes by (simp add: plan_magistral)
qed

text \<open>
  A body stream that fails while it is relayed: the error is caught like that of a
  failed attempt, and the next request is sent.
\<close>

lemma failing_stream_goes_on:
  "sent (dispatch sample_platform upstream_stream_fails connected (js ''x'')) =
     [(Conv, js ''x''), (Chat, js ''x'')]"
proof -
  obtain st b where run:
    "try_plan sample_platform upstream_stream_fails connected (attempt_plan [js ''x''])
       \<lparr>lastErrorText = [], requests = [], written = []\<rparr> = (st, b)"
    by (cases "try_plan sample_platform upstream_stream_fails connected (attempt_plan [js ''x''])
       \<lparr>lastErrorText = [], requests = [], written = []\<rparr>")
  have first: "attempt sample_platform upstream_stream_fails connected (js ''x'') Conv
       \<lparr>lastErrorText = [], requests = [], written = []\<rparr> =
     (\<lparr>lastErrorText = js ''terminated'', requests = [(Conv, js ''x'')],
       written = ascii ''data''\<rparr>, False)"
    by (simp add: attempt_def upstream_stream_fails_def callConversations_def call_endpoint_def
        response_ok_def toLowerCase_def lower_unit_def headersSent_def connected_def ascii_def
        js_def Let_def)
  have second: "attempt sample_platform upstream_stream_fails connected (js ''x'') Chat
       \<lparr>lastErrorText = js ''terminated'', requests = [(Conv, js ''x'')],
         written = ascii ''data''\<rparr> =
     (\<lparr>lastErrorText = js ''fetch failed'', requests = [(Conv, js ''x''), (Chat, js ''x'')],
       written = ascii ''data''\<rparr>, False)"
    by (simp add: attempt_def upstream_stream_fails_def callChatCompletions_def call_endpoint_def
        Let_def)
  show ?thesis
    by (simp add: dispatch_def families_x try_families_plan plan_x first second
        del: try_families.simps split: prod.splits)
qed

lemma families_Mistral: "families (js ''Mistral-small'') = Names [js ''Mistral-small'']"
  by (simp add: families_def FAMILY_ALIASES_def Object_prototype_props_def js_def)

lemma plan_Mistral:
  "attempt_plan [js ''Mistral-small''] = [(Conv, js ''Mistral-small''), (Chat, js ''Mistral-small'')]"
  by (simp add: attempt_plan_def PREFER_CHAT_def js_def)

lemma families_small:
  "families (js ''mistral-small-latest'') = Names [js ''mistral-small-latest'', js ''mistral-small'']"
  by (simp add: families_def FAMILY_ALIASES_def js_def)

lemma plan_small:
  "attempt_plan [js ''mistral-small-latest'', js ''mistral-small''] =
     [(Chat, js ''mistral-small-latest''), (Conv, js ''mistral-small-latest''),
      (Chat, js ''mistral-small''), (Conv, js ''mistral-small'')]"
  by (simp add: attempt_plan_def PREFER_CHAT_def js_def)

lemma dispatch_errors_outcome:
  "families model = Names names \<Longrightarrow>
     \<exists>msg. outcome (dispatch P upstream_errors d model) = Json502 msg"
proof -
  assume fam: "families model = Names names"
  let ?st0 = "\<lparr>lastErrorText = [], requests = [], written = []\<rparr>"
  have "try_families P upstream_errors d names ?st0 =
          (run_failed P upstream_errors (attempt_plan names) ?st0, False)"
    unfolding try_families_plan
    by (rule try_plan_failed) (simp add: upstream_errors_def error_response_not_ok)
  then show ?thesis
    by (simp add: dispatch_def fam headersSent_def run_failed_written del: try_families.simps)
qed

text \<open>
  Claim C6 at \<open>mistral-small-latest\<close>, whose two candidates are in the set, and at
  \<open>Mistral-small\<close>, which is not: only the case of its first letter differs.
\<close>
theorem shape_order_of_requests_witness:
  "sent (dispatch sample_platform upstream_errors connected (js ''mistral-small-latest'')) =
     [(Chat, js ''mistral-small-latest''), (Conv, js ''mistral-small-latest''),
      (Chat, js ''mistral-small''), (Conv, js ''mistral-small'')]
   \<and> sent (dispatch sample_platform upstream_errors connected (js ''Mistral-small'')) =
     [(Conv, js ''Mistral-small''), (Chat, js ''Mistral-small'')]"
proof -
  obtain m1 where m1:
    "outcome (dispatch sample_platform upstream_errors connected (js ''mistral-small-latest'')) =
       Json502 m1"
    using dispatch_errors_outcome [OF families_small] by blast
  obtain m2 where m2:
    "outcome (dispatch sample_platform upstream_errors connected (js ''Mistral-small'')) =
       Json502 m2"
    using dispatch_errors_outcome [OF families_Mistral] by blast
  show ?thesis
    using shape_order_of_requests [OF families_small, of sample_platform upstream_errors connected]
      shape_order_of_requests [OF families_Mistral, of sample_platform upstream_errors connected]
    by (simp add: m1 m2 plan_small plan_Mistral)
qed

lemma payload_eta: "\<lparr>role = role m, content = content m\<rparr> = (m :: ChatMessagePayload)"
  by simp

lemma is_string_iff: "is_string c \<longleftrightarrow> (\<exists>s. c = Str s)"
  by (cases c) simp_all

text \<open>
  Claim C9. Before the attachments are merged, the message list of the completions
  body is the system message built from \<open>instructions\<close> when that is not empty,
  followed by the caller's messages with string content in their order; a message
  whose content is not a string does not occur in it.
\<close>
theorem chat_messages_string_only:
  "chatMessages instructions messages =
     (if instructions = [] then [] else [\<lparr>role = System, content = Str instructions\<rparr>])
     @ filter (\<lambda>m. \<exists>s. content m = Str s) messages
   \<and> (\<forall>m \<in> set messages.
         (\<forall>s. content m \<noteq> Str s) \<longrightarrow> m \<notin> set (chatMessages instructions messages))"
  by (auto simp: chatMessages_def is_string_iff payload_eta)

text \<open>
  Claim C9 at three messages of which the second carries an image, and at empty
  instructions.
\<close>
theorem chat_messages_string_only_witness:
  "chatMessages (js ''be brief'')
     [\<lparr>role = User, content = Str (js ''hi'')\<rparr>,
      \<lparr>role = User, content = Items [TextItem (js ''look''), ImageUrl (js ''data:image/png;base64,AA'')]\<rparr>,
      \<lparr>role = Assistant, content = Str (js ''hello'')\<rparr>] =
     [\<lparr>role = System, content = Str (js ''be brief'')\<rparr>,
      \<lparr>role = User, content = Str (js ''hi'')\<rparr>,
      \<lparr>role = Assistant, content = Str (js ''hello'')\<rparr>]
   \<and> chatMessages [] [\<lparr>role = User, content = Items [TextItem (js ''look'')]\<rparr>] = []"
  using chat_messages_string_only [of "js ''be brief''"
      "[\<lparr>role = User, content = Str (js ''hi'')\<rparr>,
        \<lparr>role = User, content = Items [TextItem (js ''look''), ImageUrl (js ''data:image/png;base64,AA'')]\<rparr>,
        \<lparr>role = Assistant, content = Str (js ''hello'')\<rparr>]"]
    chat_messages_string_only [of "[]" "[\<lparr>role = User, content = Items [TextItem (js ''look'')]\<rparr>]"]
  by (simp add: js_nonempty)

section \<open>Properties of the client\<close>

lemma decode_append:
  "decode st (a @ b) =
     (case decode st a of (st1, out1) \<Rightarrow>
        (case decode st1 b of (st2, out2) \<Rightarrow> (st2, out1 @ out2)))"
  by (induction a arbitrary: st) (simp_all split: prod.splits)

lemma split_nn_nonempty: "split_nn s \<noteq> []"
  by (induction s rule: split_nn.induct) (auto split: list.splits)

lemma split_nn_step:
  "\<not> (c = 10 \<and> c' = 10) \<Longrightarrow> split_nn (c' # z) = g # gs \<Longrightarrow> split_nn (c # c' # z) = (c # g) # gs"
  by (simp only: split_nn.simps if_False list.case)

lemma split_nn_delim: "split_nn (10 # 10 # z) = [] # split_nn z"
  by simp

lemma split_nn_cases:
  obtains g gs where "split_nn s = g # gs"
  using split_nn_nonempty [of s] by (cases "split_nn s") auto

lemma split_nn_single: "split_nn s = [f] \<Longrightarrow> f = s"
proof (induction s arbitrary: f rule: split_nn.induct)
  case 1
  then show ?case by simp
next
  case (2 c)
  then show ?case by simp
next
  case (3 c c' s)
  show ?case
  proof (cases "c = 10 \<and> c' = 10")
    case True
    with "3.prems" show ?thesis by (simp add: split_nn_nonempty)
  next
    case False
    obtain g gs where g: "split_nn (c' # s) = g # gs" by (rule split_nn_cases)
    have "split_nn (c # c' # s) = (c # g) # gs" using False g by (rule split_nn_step)
    with "3.prems" have "gs = []" "f = c # g" by simp_all
    moreover have "g = c' # s"
      using "3.IH"(2) [OF False, of g] g \<open>gs = []\<close> by simp
    ultimately show ?thesis by simp
  qed
qed

lemma split_nn_append:
  "split_nn (x @ y) = butlast (split_nn x) @ split_nn (last (split_nn x) @ y)"
proof (induction x rule: split_nn.induct)
  case 1
  show ?case by simp
next
  case (2 c)
  show ?case by simp
next
  case (3 c c' s)
  show ?case
  proof (cases "c = 10 \<and> c' = 10")
    case True
    then show ?thesis
      using "3.IH"(1) by (simp add: split_nn_nonempty)
  next
    case False
    obtain g gs where g: "split_nn (c' # s) = g # gs" by (rule split_nn_cases)
    have whole: "split_nn (c # c' # s) = (c # g) # gs" using False g by (rule split_nn_step)
    have ih: "split_nn (c' # s @ y) = butlast (g # gs) @ split_nn (last (g # gs) @ y)"
      using "3.IH"(2) [OF False] g by simp
    show ?thesis
    proof (cases gs)
      case Nil
      then have "g = c' # s" using g split_nn_single by blast
      then show ?thesis using whole Nil by simp
    next
      case (Cons h hs)
      have "split_nn (c' # s @ y) = g # (butlast gs @ split_nn (last gs @ y))"
        using ih Cons by simp
      with False have "split_nn (c # c' # s @ y) = (c # g) # (butlast gs @ split_nn (last gs @ y))"
        by (rule split_nn_step)
      then show ?thesis using whole Cons by simp
    qed
  qed
qed

lemma split_nn_last:
  "split_nn (last (split_nn s)) = [last (split_nn s)]"
proof (induction s rule: split_nn.induct)
  case 1
  show ?case by simp
next
  case (2 c)
  show ?case by simp
next
  case (3 c c' s)
  show ?case
  proof (cases "c = 10 \<and> c' = 10")
    case True
    then show ?thesis using "3.IH"(1) by (simp add: split_nn_nonempty)
  next
    case False
    obtain g gs where g: "split_nn (c' # s) = g # gs" by (rule split_nn_cases)
    have whole: "split_nn (c # c' # s) = (c # g) # gs" using False g by (rule split_nn_step)
    show ?thesis
    proof (cases gs)
      case Nil
      then have "g = c' # s" using g split_nn_single by blast
      then show ?thesis using whole Nil by simp
    next
      case (Cons h hs)
      then show ?thesis using whole g "3.IH"(2) [OF False] by simp
    qed
  qed
qed

lemma process_frames_append:
  "process_frames P i (xs @ ys) =
     (case process_frames P i xs of
        (out1, True) \<Rightarrow> (out1, True)
      | (out1, False) \<Rightarrow>
          (case process_frames P i ys of (out2, b) \<Rightarrow> (out1 @ out2, b)))"
  by (induction xs) (auto split: prod.splits bool.splits)

lemma read_loop_merge:
  "read_loop P oa i st buf (c1 # c2 # cs) e = read_loop P oa i st buf ((c1 @ c2) # cs) e"
proof -
  obtain st1 t1 where d1: "decode st c1 = (st1, t1)" by (cases "decode st c1")
  obtain st2 t2 where d2: "decode st1 c2 = (st2, t2)" by (cases "decode st1 c2")
  have d12: "decode st (c1 @ c2) = (st2, t1 @ t2)"
    by (simp add: decode_append d1 d2)
  let ?f1 = "split_nn (buf @ t1)"
  let ?f2 = "split_nn (last ?f1 @ t2)"
  have frames: "split_nn (buf @ t1 @ t2) = butlast ?f1 @ ?f2"
    using split_nn_append [of "buf @ t1" t2] by simp
  have bl: "butlast (butlast ?f1 @ ?f2) = butlast ?f1 @ butlast ?f2"
    by (simp add: butlast_append split_nn_nonempty)
  have la: "last (butlast ?f1 @ ?f2) = last ?f2"
    by (simp add: split_nn_nonempty)
  obtain o1 b1 where p1: "process_frames P i (butlast ?f1) = (o1, b1)"
    by (cases "process_frames P i (butlast ?f1)")
  obtain o2 b2 where p2: "process_frames P i (butlast ?f2) = (o2, b2)"
    by (cases "process_frames P i (butlast ?f2)")
  show ?thesis
    by (simp add: d1 d2 d12 frames bl la process_frames_append p1 p2 split: bool.splits)
qed

lemma read_loop_tail:
  assumes "\<And>st' buf'. split_nn buf' = [buf'] \<Longrightarrow>
             read_loop P oa i st' buf' cs e = read_loop P oa i st' buf' cs' e"
  shows "read_loop P oa i st buf (c # cs) e = read_loop P oa i st buf (c # cs') e"
  using assms by (simp add: split_nn_last split: prod.splits bool.splits)

lemma read_loop_concat:
  "split_nn buf = [buf] \<Longrightarrow>
     read_loop P oa i st buf cs e = read_loop P oa i st buf [concat cs] e"
proof (induction cs arbitrary: st buf)
  case Nil
  then show ?case by simp
next
  case (Cons c cs)
  have "read_loop P oa i st buf (c # cs) e = read_loop P oa i st buf (c # [concat cs]) e"
    by (rule read_loop_tail) (rule Cons.IH)
  also have "\<dots> = read_loop P oa i st buf [c @ concat cs] e"
    by (rule read_loop_merge)
  finally show ?case by simp
qed

text \<open>
  Claim C4. However a byte sequence is cut into chunks, also inside a character of
  several bytes or inside the delimiter of two line feeds, \<open>streamMistralReply\<close>
  makes the same calls of its callbacks, and so delivers the same sequence of tokens,
  as when the whole sequence arrives as one chunk.
\<close>
theorem chunking_invariance:
  assumes "concat chunks = bytes"
  shows "streamMistralReply P oa preset gen
           (FetchResponds \<lparr>reply_status = s, reply_text = t, reply_body = Some (chunks, e)\<rparr>)
         = streamMistralReply P oa preset gen
           (FetchResponds \<lparr>reply_status = s, reply_text = t, reply_body = Some ([bytes], e)\<rparr>)"
  using assms read_loop_concat [of "[]" P oa _ utf8_init chunks e]
  by (simp add: streamMistralReply_def not_ok_text_def Let_def)

lemma handle_event_ids:
  "cb \<in> set (fst (handle_event P i evt)) \<Longrightarrow> callback_id cb = i \<and> \<not> is_OnStart cb"
  by (auto simp: handle_event_def Let_def split: if_splits option.splits json.splits list.splits)

lemma handle_frame_ids:
  "cb \<in> set (fst (handle_frame P i frame)) \<Longrightarrow> callback_id cb = i \<and> \<not> is_OnStart cb"
  using handle_event_ids [of cb P i]
  by (auto simp: handle_frame_def split: option.splits if_splits)

lemma process_frames_ids:
  "cb \<in> set (fst (process_frames P i frames)) \<Longrightarrow> callback_id cb = i \<and> \<not> is_OnStart cb"
proof (induction frames)
  case Nil
  then show ?case by simp
next
  case (Cons f frames)
  obtain out b where h: "handle_frame P i f = (out, b)" by (cases "handle_frame P i f")
  obtain out' b' where p: "process_frames P i frames = (out', b')"
    by (cases "process_frames P i frames")
  from Cons.prems h p have "cb \<in> set out \<or> cb \<in> set out'"
    by (cases b) auto
  then show ?case
    using handle_frame_ids [of cb P i f] Cons.IH h p by auto
qed

lemma on_thrown_ids:
  "cb \<in> set (on_thrown oa fb i t) \<Longrightarrow> callback_id cb = i \<and> \<not> is_OnStart cb"
  by (auto simp: on_thrown_def split: thrown.splits if_splits)

lemma read_loop_ids:
  "cb \<in> set (read_loop P oa i st buf cs e) \<Longrightarrow> callback_id cb = i \<and> \<not> is_OnStart cb"
proof (induction cs arbitrary: st buf)
  case Nil
  then show ?case using on_thrown_ids [of cb oa _ i] by (cases e) auto
next
  case (Cons c cs)
  obtain st' t where d: "decode st c = (st', t)" by (cases "decode st c")
  obtain out b where p: "process_frames P i (butlast (split_nn (buf @ t))) = (out, b)"
    by (cases "process_frames P i (butlast (split_nn (buf @ t)))")
  from Cons.prems d p
  have "cb \<in> set out \<or> cb \<in> set (read_loop P oa i st' (last (split_nn (buf @ t))) cs e)"
    by (cases b) auto
  then show ?case
    using process_frames_ids [of cb P i "butlast (split_nn (buf @ t))"] p Cons.IH by auto
qed

lemma reply_callbacks_ids:
  assumes "streamMistralReply P oa preset gen fr = OnStart i # rest" and "cb \<in> set rest"
  shows "\<not> is_OnStart cb \<and> callback_id cb = i"
proof -
  let ?i = "case preset of Some p \<Rightarrow> p | None \<Rightarrow> gen"
  from assms(1) have i: "i = ?i"
    by (simp add: streamMistralReply_def Let_def)
  show ?thesis
  proof (cases fr)
    case (FetchThrows t)
    with assms have "cb \<in> set (on_thrown oa (js ''Network error while contacting chat API.'') ?i t)"
      by (auto simp: streamMistralReply_def Let_def)
    then show ?thesis using on_thrown_ids i by blast
  next
    case (FetchResponds res)
    show ?thesis
    proof (cases "200 \<le> reply_status res \<and> reply_status res \<le> 299")
      case False
      with assms FetchResponds have "cb = OnError (not_ok_text P res) ?i"
        by (auto simp: streamMistralReply_def Let_def)
      then show ?thesis using i by simp
    next
      case True
      show ?thesis
      proof (cases "reply_body res")
        case None
        with assms FetchResponds True
        have "cb = OnError (JStr (js ''No response body from server.'')) ?i"
          by (auto simp: streamMistralReply_def Let_def)
        then show ?thesis using i by simp
      next
        case (Some b)
        obtain cs e where b: "b = (cs, e)" by (cases b)
        with assms FetchResponds True Some
        have "cb \<in> set (read_loop P oa ?i utf8_init [] cs e)"
          by (auto simp: streamMistralReply_def Let_def)
        then show ?thesis using read_loop_ids i by blast
      qed
    qed
  qed
qed

text \<open>
  Claim C10. Whatever \<open>fetch\<close> does, the first call of \<open>streamMistralReply\<close> is
  \<open>onStart\<close> with the \<open>assistantId\<close> (the preset one, or else the generated one), no
  later call is \<open>onStart\<close>, and every later call carries the same \<open>assistantId\<close>.
\<close>
theorem onStart_first_same_id:
  "\<exists>rest. streamMistralReply P oa preset gen fr =
            OnStart (case preset of Some p \<Rightarrow> p | None \<Rightarrow> gen) # rest
        \<and> (\<forall>cb \<in> set rest.
              \<not> is_OnStart cb \<and> callback_id cb = (case preset of Some p \<Rightarrow> p | None \<Rightarrow> gen))"
proof -
  obtain rest where rest:
    "streamMistralReply P oa preset gen fr =
       OnStart (case preset of Some p \<Rightarrow> p | None \<Rightarrow> gen) # rest"
    by (simp add: streamMistralReply_def Let_def)
  then show ?thesis
    using reply_callbacks_ids [OF rest] by blast
qed


lemmas decode_defs =
  utf8_step_def start_byte_def emit_def utf8_init_def utf8_reset_def code_units_def Let_def

lemmas frame_defs =
  handle_frame_def extractDataJsonFromFrame_def trim_def is_space_def indexOf_def
  handle_event_def extractTextFromDeltaContent_def choice_delta_def
  sample_platform_def sample_parse_def js_def Let_def

lemma decode_delta_then_done:
  \<open>decode utf8_init delta_then_done =
     (utf8_init\<lparr>bom_seen := True\<rparr>,
      js ''data: {"type":"message.output.delta","content":"ab"}'' @ 10 # 10 #
      js ''data: {"type":"conversation.response.done"}'' @ [10, 10])\<close>
  by (simp add: delta_then_done_def ascii_def js_def decode_defs)

lemma split_delta_then_done:
  \<open>split_nn (js ''data: {"type":"message.output.delta","content":"ab"}'' @ 10 # 10 #
      js ''data: {"type":"conversation.response.done"}'' @ [10, 10]) =
     [js ''data: {"type":"message.output.delta","content":"ab"}'',
      js ''data: {"type":"conversation.response.done"}'', []]\<close>
  by (simp add: js_def)

lemma decode_delta_done_delta:
  \<open>decode utf8_init delta_done_delta =
     (utf8_init\<lparr>bom_seen := True\<rparr>,
      js ''data: {"type":"message.output.delta","content":"ab"}'' @ 10 # 10 #
      js ''data: {"type":"conversation.response.done"}'' @ 10 # 10 #
      js ''data: {"type":"message.output.delta","content":"ab"}'' @ [10, 10])\<close>
  by (simp add: delta_done_delta_def ascii_def js_def decode_defs)

lemma split_delta_done_delta:
  \<open>split_nn (js ''data: {"type":"message.output.delta","content":"ab"}'' @ 10 # 10 #
      js ''data: {"type":"conversation.response.done"}'' @ 10 # 10 #
      js ''data: {"type":"message.output.delta","content":"ab"}'' @ [10, 10]) =
     [js ''data: {"type":"message.output.delta","content":"ab"}'',
      js ''data: {"type":"conversation.response.done"}'',
      js ''data: {"type":"message.output.delta","content":"ab"}'', []]\<close>
  by (simp add: js_def)

lemma frame_delta_ab:
  \<open>handle_frame sample_platform i (js ''data: {"type":"message.output.delta","content":"ab"}'') =
     ([OnToken (js ''ab'') i], False)\<close>
  by (simp add: frame_defs)

lemma frame_done:
  \<open>handle_frame sample_platform i (js ''data: {"type":"conversation.response.done"}'') =
     ([OnDone i], False)\<close>
  by (simp add: frame_defs)

text \<open>
  Claim C1 fails on the code: the branch of the terminal frame calls \<open>onDone\<close> and goes
  on with \<open>continue\<close>, where the branch of an error returns. For a delta frame with
  content \<open>ab\<close> followed by the terminal frame, \<open>onDone\<close> is called for the frame and
  again when the stream ends; a delta frame that follows the terminal frame still
  gives its token.
\<close>
theorem terminal_frame_does_not_stop:
  "streamMistralReply sample_platform True None (js ''a1'') (ok_reply [delta_then_done]) =
     [OnStart (js ''a1''), OnToken (js ''ab'') (js ''a1''), OnDone (js ''a1''), OnDone (js ''a1'')]
   \<and> streamMistralReply sample_platform True None (js ''a1'') (ok_reply [delta_done_delta]) =
     [OnStart (js ''a1''), OnToken (js ''ab'') (js ''a1''), OnDone (js ''a1''),
      OnToken (js ''ab'') (js ''a1''), OnDone (js ''a1'')]"
proof -
  have "read_loop sample_platform True (js ''a1'') utf8_init [] [delta_then_done] ReadDone =
          [OnToken (js ''ab'') (js ''a1''), OnDone (js ''a1''), OnDone (js ''a1'')]"
    by (simp add: decode_delta_then_done split_delta_then_done frame_delta_ab frame_done)
  moreover
  have "read_loop sample_platform True (js ''a1'') utf8_init [] [delta_done_delta] ReadDone =
          [OnToken (js ''ab'') (js ''a1''), OnDone (js ''a1''),
           OnToken (js ''ab'') (js ''a1''), OnDone (js ''a1'')]"
    by (simp add: decode_delta_done_delta split_delta_done_delta frame_delta_ab frame_done)
  ultimately show ?thesis
    by (simp add: streamMistralReply_def ok_reply_def Let_def)
qed

lemma decode_split_chunks:
  \<open>decode utf8_init (concat split_chunks) =
     (utf8_init\<lparr>bom_seen := True\<rparr>,
      js ''data: {"type":"message.output.delta","content":"'' @ 0xE9 # js ''"}'' @ 10 # 10 #
      js ''data: {"type":"conversation.response.done"}'' @ [10, 10])\<close>
  by (simp add: split_chunks_def ascii_def js_def decode_defs)

lemma split_split_chunks:
  \<open>split_nn (js ''data: {"type":"message.output.delta","content":"'' @ 0xE9 # js ''"}'' @ 10 # 10 #
      js ''data: {"type":"conversation.response.done"}'' @ [10, 10]) =
     [js ''data: {"type":"message.output.delta","content":"'' @ 0xE9 # js ''"}'',
      js ''data: {"type":"conversation.response.done"}'', []]\<close>
  by (simp add: js_def)

lemma frame_delta_e9:
  \<open>handle_frame sample_platform i
      (js ''data: {"type":"message.output.delta","content":"'' @ 0xE9 # js ''"}'') =
     ([OnToken [0xE9] i], False)\<close>
  by (simp add: frame_defs)

text \<open>
  Claim C4 at a stream cut inside the two bytes of U+00E9 and between the two line
  feeds of the delimiter.
\<close>
theorem chunking_invariance_witness:
  "streamMistralReply sample_platform True None (js ''a1'')
     (FetchResponds \<lparr>reply_status = 200, reply_text = None,
                     reply_body = Some (split_chunks, ReadDone)\<rparr>) =
     [OnStart (js ''a1''), OnToken [0xE9] (js ''a1''), OnDone (js ''a1''), OnDone (js ''a1'')]"
proof -
  have "read_loop sample_platform True (js ''a1'') utf8_init [] [concat split_chunks] ReadDone =
          [OnToken [0xE9] (js ''a1''), OnDone (js ''a1''), OnDone (js ''a1'')]"
    by (simp add: decode_split_chunks split_split_chunks frame_delta_e9 frame_done del: concat.simps)
  then have "streamMistralReply sample_platform True None (js ''a1'')
     (FetchResponds \<lparr>reply_status = 200, reply_text = None,
                     reply_body = Some ([concat split_chunks], ReadDone)\<rparr>) =
     [OnStart (js ''a1''), OnToken [0xE9] (js ''a1''), OnDone (js ''a1''), OnDone (js ''a1'')]"
    by (simp add: streamMistralReply_def Let_def del: concat.simps read_loop.simps)
  then show ?thesis
    using chunking_invariance [of split_chunks "concat split_chunks" sample_platform True None
        "js ''a1''" 200 None ReadDone]
    by simp
qed

text \<open>Claim C10 where \<open>fetch\<close> throws an error.\<close>
theorem onStart_first_same_id_witness:
  "\<exists>rest. streamMistralReply sample_platform True None (js ''a1'')
             (FetchThrows (ErrorWith (js ''Failed to fetch''))) = OnStart (js ''a1'') # rest
         \<and> rest = [OnError (JStr (js ''Failed to fetch'')) (js ''a1'')]
         \<and> list_all (\<lambda>cb. \<not> is_OnStart cb \<and> callback_id cb = js ''a1'') rest"
  using onStart_first_same_id [of sample_platform True None "js ''a1''"
      "FetchThrows (ErrorWith (js ''Failed to fetch''))"]
  by (simp add: streamMistralReply_def on_thrown_def Let_def)

lemma plain_line_tail: "plain_line (c # l) \<Longrightarrow> plain_line l"
  by (cases l) (auto simp: plain_line_def)

lemma split_lines_plain: "plain_line l \<Longrightarrow> split_lines l = [l]"
proof (induction l)
  case Nil
  show ?case by simp
next
  case (Cons c l)
  have c: "c \<noteq> 10" using Cons.prems by (simp add: plain_line_def)
  show ?case
  proof (cases l)
    case Nil
    then show ?thesis using c by simp
  next
    case (Cons c' s)
    have "c' \<noteq> 10" using Cons.prems Cons by (simp add: plain_line_def)
    moreover have "split_lines (c' # s) = [c' # s]"
      using Cons.IH plain_line_tail [OF Cons.prems] Cons by simp
    ultimately show ?thesis using c Cons by simp
  qed
qed

lemma split_lines_feed: "split_lines (10 # rest) = [] # split_lines rest"
  by (cases rest) simp_all

lemma split_lines_line:
  "plain_line l \<Longrightarrow> split_lines (l @ 10 # rest) = l # split_lines rest"
proof (induction l)
  case Nil
  show ?case by (simp add: split_lines_feed)
next
  case (Cons c l)
  have c: "c \<noteq> 10" using Cons.prems by (simp add: plain_line_def)
  have ih: "split_lines (l @ 10 # rest) = l # split_lines rest"
    using Cons.IH plain_line_tail [OF Cons.prems] by simp
  show ?case
  proof (cases l)
    case Nil
    then have "c \<noteq> 13" using Cons.prems by (simp add: plain_line_def)
    then show ?thesis using c Nil ih by simp
  next
    case (Cons c' s)
    have "c' \<noteq> 10" using Cons.prems Cons by (simp add: plain_line_def)
    then show ?thesis using c Cons ih by simp
  qed
qed

lemma split_lines_join:
  "ls \<noteq> [] \<Longrightarrow> \<forall>l \<in> set ls. plain_line l \<Longrightarrow> split_lines (join_lines ls) = ls"
proof (induction ls rule: join_lines.induct)
  case 1
  then show ?case by simp
next
  case (2 l)
  then show ?case by (simp add: split_lines_plain)
next
  case (3 l l' ls)
  then show ?case by (simp add: split_lines_line)
qed

lemma find_first:
  "\<forall>x \<in> set xs. \<not> Q x \<Longrightarrow> Q y \<Longrightarrow> find Q (xs @ [y] @ zs) = Some y"
  by (induction xs) simp_all

lemma starts_with_append: "starts_with (p @ s) p"
  by (induction p) simp_all

lemma space_not_d: "is_space c \<Longrightarrow> c \<noteq> 100"
  by (auto simp: is_space_def)

lemma dropWhile_keep:
  "ys \<noteq> [] \<Longrightarrow> \<not> Q (hd ys) \<Longrightarrow> dropWhile Q (xs @ ys) = dropWhile Q xs @ ys"
  by (induction xs) (cases ys; simp)+

lemma trim_data_line:
  assumes "\<forall>c \<in> set ws. is_space c"
  shows "trim (ws @ js ''data:'' @ payload) = js ''data:'' @ rev (dropWhile is_space (rev payload))"
proof -
  have "dropWhile is_space (js ''data:'' @ payload) = js ''data:'' @ payload"
    by (simp add: js_def is_space_def)
  then have lead: "dropWhile is_space (ws @ js ''data:'' @ payload) = js ''data:'' @ payload"
    using assms by (simp add: dropWhile_append2)
  have "rev (js ''data:'') \<noteq> []" "\<not> is_space (hd (rev (js ''data:'')))"
    by (simp_all add: js_def is_space_def)
  then have trail:
    "dropWhile is_space (rev payload @ rev (js ''data:'')) =
       dropWhile is_space (rev payload) @ rev (js ''data:'')"
    by (rule dropWhile_keep)
  have "trim (ws @ js ''data:'' @ payload) =
          rev (dropWhile is_space (rev payload @ rev (js ''data:'')))"
    unfolding trim_def lead by simp
  also have "\<dots> = js ''data:'' @ rev (dropWhile is_space (rev payload))"
    unfolding trail by simp
  finally show ?thesis .
qed

lemma indexOf_data_line:
  assumes "\<forall>c \<in> set ws. is_space c"
  shows "indexOf (ws @ js ''data:'' @ payload) (js ''data:'') = int (length ws)"
proof -
  have "find_from (ws @ js ''data:'' @ payload) (js ''data:'') i = int (i + length ws)" for i
    using assms
  proof (induction ws arbitrary: i)
    case Nil
    show ?case by (simp add: js_def)
  next
    case (Cons c ws)
    have "c \<noteq> 100" using Cons.prems space_not_d by simp
    then have "\<not> starts_with (c # ws @ js ''data:'' @ payload) (js ''data:'')"
      by (simp add: js_def)
    then show ?case using Cons by simp
  qed
  then show ?thesis by (simp add: indexOf_def)
qed

lemma extract_data_frame:
  assumes "\<forall>l \<in> set (before @ [ws @ js ''data:'' @ payload] @ after). plain_line l"
    and "\<forall>l \<in> set before. \<not> starts_with (trim l) (js ''data:'')"
    and "\<forall>c \<in> set ws. is_space c"
  shows "extractDataJsonFromFrame P (join_lines (before @ [ws @ js ''data:'' @ payload] @ after)) =
           (if trim payload = [] \<or> trim payload = js ''[DONE]'' then None
            else JSON_parse P (trim payload))"
proof -
  let ?line = "ws @ js ''data:'' @ payload"
  have lines: "split_lines (join_lines (before @ [?line] @ after)) = before @ [?line] @ after"
    by (rule split_lines_join) (use assms(1) in simp_all)
  have "starts_with (trim ?line) (js ''data:'')"
    by (simp add: trim_data_line [OF assms(3)] starts_with_append)
  then have found:
    "find (\<lambda>l. starts_with (trim l) (js ''data:'')) (before @ [?line] @ after) = Some ?line"
    using assms(2) by (intro find_first) simp_all
  have len: "length (js ''data:'') = 5" by (simp add: js_def)
  have rest: "drop (nat (indexOf ?line (js ''data:'') + 5)) ?line = payload"
    by (simp add: indexOf_data_line [OF assms(3)] nat_add_distrib len)
  show ?thesis
    unfolding extractDataJsonFromFrame_def lines found option.case Let_def rest
    by simp
qed


lemma get_Some_truthy: "get evt k = Some v \<Longrightarrow> truthy P evt"
  by (cases evt) simp_all

lemma handle_event_choices:
  assumes "get evt (js ''type'') \<noteq> Some (JStr (js ''message.output.delta''))"
    and "get evt (js ''type'') \<noteq> Some (JStr (js ''conversation.response.done''))"
    and "\<forall>e. get evt (js ''error'') = Some e \<longrightarrow> \<not> truthy P e"
    and "get evt (js ''choices'') = Some (JArr (choice # rest))"
  shows "handle_event P i evt =
           (let piece = extractTextFromDeltaContent (get (choice_delta P choice) (js ''content''))
            in (if piece = [] then [] else [OnToken piece i], False))"
proof -
  have "(case get evt (js ''error'') of
           Some e \<Rightarrow> if truthy P e then Some e else None | None \<Rightarrow> None) = None"
    using assms(3) by (cases "get evt (js ''error'')") auto
  then show ?thesis
    using assms(1,2,4) by (simp add: handle_event_def Let_def)
qed

lemma content_of_token_source:
  "get (choice_delta P choice) (js ''content'') =
     Option.bind (token_source P choice) (\<lambda>d. get d (js ''content''))"
  by (simp add: choice_delta_def token_source_def List.map_filter_simps
      split: option.splits)

lemma extract_completions_text:
  "extractTextFromDeltaContent (get (choice_delta P choice) (js ''content'')) =
     completions_text P choice"
  unfolding content_of_token_source
  by (auto simp: extractTextFromDeltaContent_def completions_text_def segment_text_def [abs_def]
      split: option.splits json.splits)

text \<open>
  Claim C8, as amended. Let a frame consist of plain lines joined by line feeds, let its
  first data line hold, after optional white space and the marker \<open>data:\<close>, a payload
  that is neither empty nor the end-of-stream sentinel, and let the payload parse to an
  event that is neither the delta nor the terminal event of the conversation shape, has
  no truthy \<open>error\<close> and has a non-empty \<open>choices\<close> list. Then the frame gives exactly
  the token text of the first choice as one token, and no token when that text is
  empty; the loop goes on. The text is the one of \<open>completions_text\<close>: read from the
  delta or else the message of the choice, a string as it is and a list of segments as
  their \<open>text\<close> strings put together.
\<close>

theorem completions_token_extraction:
  assumes "frame = join_lines (before @ [ws @ js ''data:'' @ payload] @ after)"
    and "\<forall>l \<in> set (before @ [ws @ js ''data:'' @ payload] @ after). plain_line l"
    and "\<forall>l \<in> set before. \<not> starts_with (trim l) (js ''data:'')"
    and "\<forall>c \<in> set ws. is_space c"
    and "trim payload \<noteq> []" and "trim payload \<noteq> js ''[DONE]''"
    and "JSON_parse P (trim payload) = Some evt"
    and "get evt (js ''type'') \<noteq> Some (JStr (js ''message.output.delta''))"
    and "get evt (js ''type'') \<noteq> Some (JStr (js ''conversation.response.done''))"
    and "\<forall>e. get evt (js ''error'') = Some e \<longrightarrow> \<not> truthy P e"
    and "get evt (js ''choices'') = Some (JArr (choice # rest))"
  shows "handle_frame P i frame =
           (if completions_text P choice = [] then []
            else [OnToken (completions_text P choice) i], False)"
proof -
  have "extractDataJsonFromFrame P frame = Some evt"
    unfolding assms(1) extract_data_frame [OF assms(2-4)]
    using assms(5-7) by simp
  then have "handle_frame P i frame = handle_event P i evt"
    using get_Some_truthy [OF assms(11)] by (simp add: handle_frame_def)
  then show ?thesis
    by (simp add: handle_event_choices [OF assms(8-11)] extract_completions_text Let_def)
qed

lemmas text_defs =
  completions_text_def token_source_def List.map_filter_simps segment_text_def js_def

text \<open>
  The amended claim C8 at the frames \<open>{choices:[{delta:{content:"x"}}]}\<close>, the same with
  the content \<open>[{text:"x"},{text:"y"}]\<close>, and a frame of two lines whose delta has no
  content.
\<close>

theorem completions_token_extraction_witness:
  \<open>handle_frame sample_platform (js ''a1'') (js ''data: {"choices":[{"delta":{"content":"x"}}]}'') =
     ([OnToken (js ''x'') (js ''a1'')], False)
   \<and> handle_frame sample_platform (js ''a1'')
       (js ''data: {"choices":[{"delta":{"content":[{"text":"x"},{"text":"y"}]}}]}'') =
     ([OnToken (js ''xy'') (js ''a1'')], False)
   \<and> handle_frame sample_platform (js ''a1'')
       (js ''event: chunk'' @ 10 # js ''data: {"choices":[{"delta":{"role":"assistant"}}]}'') =
     ([], False)\<close>
proof -
  let ?cx = "JObj [(js ''delta'', JObj [(js ''content'', JStr (js ''x''))])] :: nat json"
  let ?ex = "JObj [(js ''choices'', JArr [?cx])]"
  let ?cxy = "JObj [(js ''delta'',
                JObj [(js ''content'',
                       JArr [JObj [(js ''text'', JStr (js ''x''))],
                             JObj [(js ''text'', JStr (js ''y''))]])])] :: nat json"
  let ?exy = "JObj [(js ''choices'', JArr [?cxy])]"
  let ?cr = "JObj [(js ''delta'', JObj [(js ''role'', JStr (js ''assistant''))])] :: nat json"
  let ?er = "JObj [(js ''choices'', JArr [?cr])]"
  have x: \<open>handle_frame sample_platform (js ''a1'')
             (join_lines ([] @ [[] @ js ''data:'' @ js '' {"choices":[{"delta":{"content":"x"}}]}''] @ [])) =
           (if completions_text sample_platform ?cx = [] then []
            else [OnToken (completions_text sample_platform ?cx) (js ''a1'')], False)\<close>
    by (rule completions_token_extraction
          [where before = "[]" and ws = "[]" and after = "[]" and evt = ?ex and rest = "[]"
             and payload = \<open>js '' {"choices":[{"delta":{"content":"x"}}]}''\<close>, OF refl])
       (simp_all add: plain_line_def trim_def is_space_def sample_platform_def sample_parse_def js_def)
  have xy: \<open>handle_frame sample_platform (js ''a1'')
             (join_lines ([] @ [[] @ js ''data:'' @
                js '' {"choices":[{"delta":{"content":[{"text":"x"},{"text":"y"}]}}]}''] @ [])) =
           (if completions_text sample_platform ?cxy = [] then []
            else [OnToken (completions_text sample_platform ?cxy) (js ''a1'')], False)\<close>
    by (rule completions_token_extraction
          [where before = "[]" and ws = "[]" and after = "[]" and evt = ?exy and rest = "[]"
             and payload = \<open>js '' {"choices":[{"delta":{"content":[{"text":"x"},{"text":"y"}]}}]}''\<close>,
           OF refl])
       (simp_all add: plain_line_def trim_def is_space_def sample_platform_def sample_parse_def js_def)
  have r: \<open>handle_frame sample_platform (js ''a1'')
             (join_lines ([js ''event: chunk''] @ [[] @ js ''data:'' @
                js '' {"choices":[{"delta":{"role":"assistant"}}]}''] @ [])) =
           (if completions_text sample_platform ?cr = [] then []
            else [OnToken (completions_text sample_platform ?cr) (js ''a1'')], False)\<close>
    by (rule completions_token_extraction
          [where before = "[js ''event: chunk'']" and ws = "[]" and after = "[]" and evt = ?er
             and rest = "[]" and payload = \<open>js '' {"choices":[{"delta":{"role":"assistant"}}]}''\<close>,
           OF refl])
       (simp_all add: plain_line_def trim_def is_space_def sample_platform_def sample_parse_def js_def)
  have tx: "completions_text sample_platform ?cx = js ''x''"
    and txy: "completions_text sample_platform ?cxy = js ''xy''"
    and tr: "completions_text sample_platform ?cr = []"
    by (simp_all add: text_defs sample_platform_def)
  have ne: "js ''x'' \<noteq> []" "js ''xy'' \<noteq> []" by (simp_all add: js_def)
  have frames:
    \<open>js ''data:'' @ js '' {"choices":[{"delta":{"content":"x"}}]}'' =
       js ''data: {"choices":[{"delta":{"content":"x"}}]}''\<close>
    \<open>js ''data:'' @ js '' {"choices":[{"delta":{"content":[{"text":"x"},{"text":"y"}]}}]}'' =
       js ''data: {"choices":[{"delta":{"content":[{"text":"x"},{"text":"y"}]}}]}''\<close>
    \<open>js ''data:'' @ js '' {"choices":[{"delta":{"role":"assistant"}}]}'' =
       js ''data: {"choices":[{"delta":{"role":"assistant"}}]}''\<close>
    by (simp_all add: js_def)
  show ?thesis
    using x xy r ne by (simp add: tx txy tr frames)
qed

text \<open>
  Claim C8 as stated fails on an event with a non-empty \<open>choices\<close> list that an earlier
  branch of the loop takes. With the type of the conversation-shape delta and no
  string \<open>content\<close> of its own, the frame gives no token, though its first choice has the
  delta content \<open>x\<close>; with a truthy \<open>error\<close>, it gives \<open>onError\<close> and the function returns.
\<close>

theorem completions_hybrid_counterexample:
  \<open>extractDataJsonFromFrame sample_platform
      (js ''data: {"type":"message.output.delta","choices":[{"delta":{"content":"x"}}]}'') =
     Some (JObj [(js ''type'', JStr (js ''message.output.delta'')),
                 (js ''choices'',
                  JArr [JObj [(js ''delta'', JObj [(js ''content'', JStr (js ''x''))])]])])
   \<and> handle_frame sample_platform (js ''a1'')
       (js ''data: {"type":"message.output.delta","choices":[{"delta":{"content":"x"}}]}'') =
     ([], False)
   \<and> extractDataJsonFromFrame sample_platform
      (js ''data: {"error":"e","choices":[{"delta":{"content":"x"}}]}'') =
     Some (JObj [(js ''error'', JStr (js ''e'')),
                 (js ''choices'',
                  JArr [JObj [(js ''delta'', JObj [(js ''content'', JStr (js ''x''))])]])])
   \<and> handle_frame sample_platform (js ''a1'')
       (js ''data: {"error":"e","choices":[{"delta":{"content":"x"}}]}'') =
     ([OnError (JStr (js ''e'')) (js ''a1'')], True)\<close>
  by (simp add: frame_defs)

end
